theory Spec2Isabelle
  imports Main "HOL-Library.Word"
begin

unbundle bit_operations_syntax

section \<open>Data model\<close>

type_synonym uint64 = "64 word"
type_synonym int64 = "64 word"

text \<open>
  Modelled from the spec: the declarations of the trace decoder (\<open>Event\<close>, \<open>Frame\<close>,
  \<open>ParseResult\<close> and the event kind \<open>EvCPUSample\<close>) are not among the sources. The
  encoder reads \<open>event.Type\<close>, \<open>event.StkID\<close>, \<open>event.Ts\<close>, \<open>event.G\<close> and
  \<open>frame.PC\<close>, \<open>frame.Fn\<close>, \<open>frame.File\<close>, \<open>frame.Line\<close>; the field types are the
  ones the encoder's own conversions and container types fix (a \<open>uint64\<close> stack
  identifier and program counter, an \<open>int64\<close> timestamp, a 64-bit \<open>int\<close> line). Only
  the CPU-sample kind is told apart from every other kind.
\<close>

datatype EventType = EvCPUSample | EvOther nat

record Event =
  Type :: EventType
  G :: uint64
  Ts :: int64
  StkID :: uint64

record Frame =
  PC :: uint64
  Fn :: string
  File :: string
  Line :: int64

record ParseResult =
  Events :: "Event list"
  Stacks :: "uint64 \<rightharpoonup> Frame list"

record Breakdown =
  Timestamps :: "int64 list"
  Values :: "int64 list"
  LabelSets :: "int64 list"

record PprofInfo =
  Value :: int64
  Breakdown :: Breakdown

record LabelSet =
  ID :: int64
  Labels :: "string list"

section \<open>String table\<close>

text \<open>
  \<open>StrTab\<close> is a Go map from strings to identifiers. It is kept as the list of its
  entries in insertion order; \<open>Get\<close> is the only operation that stores into it and
  stores a key only when the key is absent, so the keys stay pairwise distinct and
  \<open>len(t)\<close> is the length of the list.
\<close>

type_synonym StrTab = "(string \<times> int64) list"

definition Get :: "string \<Rightarrow> StrTab \<Rightarrow> int64 \<times> StrTab" where
  "Get s t =
     (case map_of t s of
        Some i \<Rightarrow> (i, t)
      | None \<Rightarrow> (let i = of_nat (length t) in (i, t @ [(s, i)])))"

text \<open>A table reached from the empty one: distinct keys, the \<open>i\<close>-th entry has ID \<open>i\<close>.\<close>

definition dense_strtab :: "StrTab \<Rightarrow> bool" where
  "dense_strtab t \<longleftrightarrow>
     distinct (map fst t) \<and> map snd t = map of_nat [0..<length t]"

section \<open>Aggregation pass\<close>

function digits :: "nat \<Rightarrow> string" where
  "digits n =
     (if n < 10 then [''0123456789'' ! n]
      else digits (n div 10) @ [''0123456789'' ! (n mod 10)])"
  by pat_completeness auto
termination
  by (relation "measure id") auto

declare digits.simps [simp del]

text \<open>\<open>strconv.Itoa\<close>: the decimal text of a signed integer.\<close>

definition Itoa :: "int \<Rightarrow> string" where
  "Itoa i = (if i < 0 then CHR ''-'' # digits (nat (- i)) else digits (nat i))"

text \<open>The label sequence the encoder derives from one event (\<open>int(event.G)\<close> reads the
  goroutine identifier as a signed 64-bit integer).\<close>

definition event_labels :: "Event \<Rightarrow> string list" where
  "event_labels event = [''thread_id:'', Itoa (sint (G event))]"

text \<open>
  The label-set registry: the map \<open>labelSetIDs\<close> from concatenation keys to label sets
  and the sequence \<open>labelSets\<close>. \<open>resolve_labelset\<close> is the lookup-or-create block of the
  event loop (the string builder and the two stores).
\<close>

type_synonym Registry = "(string \<rightharpoonup> LabelSet) \<times> LabelSet list"

definition resolve_labelset :: "string list \<Rightarrow> Registry \<Rightarrow> LabelSet \<times> Registry" where
  "resolve_labelset labels reg =
     (let (labelSetIDs, labelSets) = reg;
          s = concat labels
      in case labelSetIDs s of
           Some ls \<Rightarrow> (ls, (labelSetIDs, labelSets))
         | None \<Rightarrow>
             (let ls = \<lparr>ID = of_nat (length labelSets), Labels = labels\<rparr>
              in (ls, (labelSetIDs(s \<mapsto> ls), labelSets @ [ls]))))"

record AggState =
  info :: "uint64 \<rightharpoonup> PprofInfo"
  registry :: Registry

definition new_PprofInfo :: PprofInfo where
  "new_PprofInfo = \<lparr>Value = 0, Breakdown = \<lparr>Timestamps = [], Values = [], LabelSets = []\<rparr>\<rparr>"

definition aggregate_event :: "AggState \<Rightarrow> Event \<Rightarrow> AggState" where
  "aggregate_event st event =
     (case Type event of
        EvCPUSample \<Rightarrow>
          (let pp = (case info st (StkID event) of Some pp \<Rightarrow> pp | None \<Rightarrow> new_PprofInfo);
               val = 1;
               bd = Breakdown pp;
               labels = event_labels event;
               (ls, reg) = resolve_labelset labels (registry st);
               bd = bd\<lparr>Timestamps := Timestamps bd @ [Ts event],
                       Values := Values bd @ [val],
                       LabelSets := LabelSets bd @ [ID ls]\<rparr>;
               pp = \<lparr>Value = Value pp + val, Breakdown = bd\<rparr>
           in \<lparr>info = (info st)(StkID event \<mapsto> pp), registry = reg\<rparr>)
      | EvOther _ \<Rightarrow> st)"

definition init_agg :: AggState where
  "init_agg = \<lparr>info = Map.empty, registry = (Map.empty, [])\<rparr>"

definition aggregate :: "Event list \<Rightarrow> AggState" where
  "aggregate events = foldl aggregate_event init_agg events"

section \<open>Serializer\<close>

text \<open>
  The run of the encoder is kept as the sequence of calls it makes on its stream: one
  node per \<open>ps.Uint64\<close>, \<open>ps.Int64\<close>, \<open>ps.Int64Packed\<close> and \<open>ps.Embedded\<close> call, with
  the field number and the value given to the call, and one \<open>Tagged\<close> node per
  hand-written string-table entry (the tag as computed from \<open>(6<<3)|2\<close>, then the
  bytes). Which of the calls the stream turns into a record is \<open>written\<close>, further
  down; the varint encoding of a record is not modelled.
\<close>

datatype pfield =
    Uint64 nat uint64
  | Int64 nat int64
  | Int64Packed nat "int64 list"
  | Embedded nat "pfield list"
  | Tagged nat string

fun field_number :: "pfield \<Rightarrow> nat" where
  "field_number (Uint64 n v) = n"
| "field_number (Int64 n v) = n"
| "field_number (Int64Packed n vs) = n"
| "field_number (Embedded n fs) = n"
| "field_number (Tagged tag s) = drop_bit 3 tag"

datatype error = IndexOutOfRange | WriteError string

record Encoder =
  buf :: "pfield list"
  strtab :: StrTab

text \<open>
  \<open>range\<close> over a Go map visits every entry once, in an order the runtime picks afresh
  for each loop. The order of each of the four map loops that write to the artifact is
  an argument of the model; \<open>range_order\<close> says that a list is a possible order.
\<close>

definition range_map :: "('k \<rightharpoonup> 'v) \<Rightarrow> 'k list \<Rightarrow> ('k \<times> 'v) list" where
  "range_map m order = List.map_filter (\<lambda>k. map_option (Pair k) (m k)) order"

definition range_order :: "('k \<rightharpoonup> 'v) \<Rightarrow> 'k list \<Rightarrow> bool" where
  "range_order m order \<longleftrightarrow> distinct order \<and> set order = dom m"

record RangeOrder =
  info_order :: "uint64 list"
  funcs_order :: "uint64 list"
  locs_order :: "uint64 list"
  strtab_order :: "string list"

definition emit_value_type :: "Encoder \<Rightarrow> Encoder" where
  "emit_value_type enc =
     (let (ty, t) = Get ''time'' (strtab enc);
          (unit, t) = Get ''ns'' t
      in \<lparr>buf = buf enc @ [Embedded 1 [Int64 1 ty, Int64 2 unit]], strtab = t\<rparr>)"

text \<open>The loop \<open>for i := 0; i < len(set.Labels); i += 2\<close>; reading \<open>set.Labels[i+1]\<close>
  past the end panics.\<close>

fun label_pairs :: "string list \<Rightarrow> StrTab \<Rightarrow> error + pfield list \<times> StrTab" where
  "label_pairs [] t = Inr ([], t)"
| "label_pairs [k] t = Inl IndexOutOfRange"
| "label_pairs (k # v # rest) t =
     (let (ki, t) = Get k t;
          (vi, t) = Get v t
      in case label_pairs rest t of
           Inl e \<Rightarrow> Inl e
         | Inr (fs, t) \<Rightarrow> Inr (Embedded 2 [Int64 1 ki, Int64 2 vi] # fs, t))"

definition emit_labelset :: "LabelSet \<Rightarrow> Encoder \<Rightarrow> error + Encoder" where
  "emit_labelset ls enc =
     (case label_pairs (Labels ls) (strtab enc) of
        Inl e \<Rightarrow> Inl e
      | Inr (fs, t) \<Rightarrow>
          Inr \<lparr>buf = buf enc @ [Embedded 16 (Uint64 1 (ID ls) # fs)], strtab = t\<rparr>)"

fun emit_labelsets :: "LabelSet list \<Rightarrow> Encoder \<Rightarrow> error + Encoder" where
  "emit_labelsets [] enc = Inr enc"
| "emit_labelsets (ls # rest) enc =
     (case emit_labelset ls enc of
        Inl e \<Rightarrow> Inl e
      | Inr enc \<Rightarrow> emit_labelsets rest enc)"

text \<open>\<open>parsed.Stacks[id]\<close>: a missing key reads as the nil slice.\<close>

definition stack_at :: "(uint64 \<rightharpoonup> Frame list) \<Rightarrow> uint64 \<Rightarrow> Frame list" where
  "stack_at stacks k = (case stacks k of Some stk \<Rightarrow> stk | None \<Rightarrow> [])"

definition sample_record :: "(uint64 \<rightharpoonup> Frame list) \<Rightarrow> uint64 \<times> PprofInfo \<Rightarrow> pfield" where
  "sample_record stacks entry =
     (let (k, pp) = entry;
          stk = stack_at stacks k
      in Embedded 2
           (map (\<lambda>frame. Uint64 1 (PC frame)) stk @
            [Int64 2 (Value pp),
             Embedded 4
               [Int64Packed 1 (Timestamps (Breakdown pp)),
                Int64Packed 2 (Values (Breakdown pp)),
                Int64Packed 3 (LabelSets (Breakdown pp))]]))"

definition emit_samples ::
  "(uint64 \<rightharpoonup> Frame list) \<Rightarrow> (uint64 \<rightharpoonup> PprofInfo) \<Rightarrow> uint64 list \<Rightarrow> Encoder \<Rightarrow> Encoder" where
  "emit_samples stacks infos order enc =
     enc\<lparr>buf := buf enc @ map (sample_record stacks) (range_map infos order)\<rparr>"

definition emit_mapping :: "Encoder \<Rightarrow> Encoder" where
  "emit_mapping enc = enc\<lparr>buf := buf enc @ [Embedded 3 [Uint64 1 1]]\<rparr>"

text \<open>
  \<open>functions\<close> is a Go map from concatenation keys to identifiers, kept like the
  string table as its entries in insertion order (a key is stored only when absent).
\<close>

type_synonym Functions = "(string \<times> uint64) list"

definition function_frame :: "Frame \<Rightarrow> Functions \<times> Encoder \<Rightarrow> Functions \<times> Encoder" where
  "function_frame frame st =
     (let (functions, enc) = st;
          key = Fn frame @ File frame
      in case map_of functions key of
           Some i \<Rightarrow> st
         | None \<Rightarrow>
             (let i = of_nat (length functions + 1);
                  functions = functions @ [(key, i)];
                  (name, t) = Get (Fn frame) (strtab enc);
                  (filename, t) = Get (File frame) t
              in (functions,
                  \<lparr>buf = buf enc @ [Embedded 5 [Uint64 1 i, Int64 2 name, Int64 4 filename]],
                   strtab = t\<rparr>)))"

definition emit_functions :: "Frame list list \<Rightarrow> Functions \<times> Encoder \<Rightarrow> Functions \<times> Encoder" where
  "emit_functions stks st = fold (\<lambda>stk. fold function_frame stk) stks st"

definition location_frame ::
  "Functions \<Rightarrow> Frame \<Rightarrow> uint64 set \<times> Encoder \<Rightarrow> uint64 set \<times> Encoder" where
  "location_frame functions frame st =
     (let (locs, enc) = st;
          pc = PC frame
      in if pc \<in> locs then st
         else
           (let locs = insert pc locs;
                key = Fn frame @ File frame;
                i = (case map_of functions key of Some i \<Rightarrow> i | None \<Rightarrow> 0)
            in (locs,
                enc\<lparr>buf := buf enc @
                  [Embedded 4
                     [Uint64 1 pc, Uint64 2 1, Uint64 3 pc,
                      Embedded 4 [Uint64 1 i, Int64 2 (Line frame)]]]\<rparr>)))"

definition emit_locations ::
  "Functions \<Rightarrow> Frame list list \<Rightarrow> uint64 set \<times> Encoder \<Rightarrow> uint64 set \<times> Encoder" where
  "emit_locations functions stks st = fold (\<lambda>stk. fold (location_frame functions) stk) stks st"

definition emit_period_type :: "Encoder \<Rightarrow> Encoder" where
  "emit_period_type enc =
     (let (ty, t) = Get ''time'' (strtab enc);
          (unit, t) = Get ''ns'' t
      in \<lparr>buf = buf enc @ [Embedded 11 [Int64 1 ty, Int64 2 unit]], strtab = t\<rparr>)"

definition emit_tick_unit :: "Encoder \<Rightarrow> Encoder" where
  "emit_tick_unit enc =
     (let (tick, t) = Get ''nanoseconds'' (strtab enc)
      in \<lparr>buf = buf enc @ [Int64 15 tick], strtab = t\<rparr>)"

text \<open>
  \<open>time.Time\<close> as the count of nanoseconds since the Unix epoch. \<open>UnixNano\<close> keeps the low
  64 bits; \<open>Sub\<close> gives a 64-bit duration and stops at the largest and the smallest one.
\<close>

type_synonym Time = int

definition UnixNano :: "Time \<Rightarrow> int64" where
  "UnixNano t = of_int t"

definition Sub :: "Time \<Rightarrow> Time \<Rightarrow> int64" where
  "Sub t u =
     (let d = t - u
      in if d > 2 ^ 63 - 1 then of_int (2 ^ 63 - 1)
         else if d < - (2 ^ 63) then of_int (- (2 ^ 63))
         else of_int d)"

text \<open>Everything \<open>ToPprof\<close> writes through the stream, up to the tick unit.\<close>

definition encode_sections :: "ParseResult \<Rightarrow> Time \<Rightarrow> Time \<Rightarrow> RangeOrder \<Rightarrow> error + Encoder" where
  "encode_sections parsed start stop ord =
     (let st = aggregate (Events parsed);
          labelSets = snd (registry st);
          enc = \<lparr>buf = [], strtab = []\<rparr>;
          enc = emit_value_type enc
      in case emit_labelsets labelSets enc of
           Inl e \<Rightarrow> Inl e
         | Inr enc \<Rightarrow>
             (let enc = emit_samples (Stacks parsed) (info st) (info_order ord) enc;
                  enc = emit_mapping enc;
                  (functions, enc) =
                    emit_functions (map snd (range_map (Stacks parsed) (funcs_order ord))) ([], enc);
                  (locs, enc) =
                    emit_locations functions
                      (map snd (range_map (Stacks parsed) (locs_order ord))) ({}, enc);
                  enc = enc\<lparr>buf := buf enc @ [Int64 9 (UnixNano start)]\<rparr>;
                  enc = enc\<lparr>buf := buf enc @ [Int64 10 (Sub stop start)]\<rparr>;
                  enc = emit_period_type enc;
                  enc = enc\<lparr>buf := buf enc @ [Int64 12 1]\<rparr>;
                  enc = emit_tick_unit enc
              in Inr enc))"

definition writeString :: "string \<Rightarrow> pfield" where
  "writeString s = Tagged (push_bit 3 6 OR 2) s"

definition string_table :: "StrTab \<Rightarrow> string list \<Rightarrow> pfield list" where
  "string_table t order =
     writeString [] # map (\<lambda>(s, i). writeString s) (range_map (map_of t) order)"

text \<open>The bytes handed to \<open>out.Write\<close>.\<close>

definition ToPprof_bytes :: "ParseResult \<Rightarrow> Time \<Rightarrow> Time \<Rightarrow> RangeOrder \<Rightarrow> error + pfield list" where
  "ToPprof_bytes parsed start stop ord =
     (case encode_sections parsed start stop ord of
        Inl e \<Rightarrow> Inl e
      | Inr enc \<Rightarrow> Inr (buf enc @ string_table (strtab enc) (strtab_order ord)))"

text \<open>
  \<open>ToPprof\<close> with its sink: \<open>out\<close> maps the bytes it is given to the error of the
  write, if any. \<open>Inr b\<close> is the return of \<open>nil\<close> after \<open>b\<close> was written. The two
  loops that print the aggregates to standard output write nothing to the artifact
  and are left out.
\<close>

definition ToPprof ::
  "ParseResult \<Rightarrow> Time \<Rightarrow> Time \<Rightarrow> (pfield list \<Rightarrow> string option) \<Rightarrow> RangeOrder \<Rightarrow> error + pfield list" where
  "ToPprof parsed start stop out ord =
     (case ToPprof_bytes parsed start stop ord of
        Inl e \<Rightarrow> Inl e
      | Inr b \<Rightarrow> (case out b of Some err \<Rightarrow> Inl (WriteError err) | None \<Rightarrow> Inr b))"

section \<open>Notions used to state the properties\<close>

text \<open>The CPU-sample events of one stack, in stream order.\<close>

definition stack_events :: "uint64 \<Rightarrow> Event list \<Rightarrow> Event list" where
  "stack_events k events = filter (\<lambda>e. Type e = EvCPUSample \<and> StkID e = k) events"

text \<open>Label sets whose \<open>i\<close>-th member has identifier \<open>i\<close>.\<close>

definition dense_labelsets :: "LabelSet list \<Rightarrow> bool" where
  "dense_labelsets sets \<longleftrightarrow> map ID sets = map of_nat [0..<length sets]"

text \<open>What the pass has recorded for stack \<open>k\<close> after the events \<open>events\<close>.\<close>

definition agg_ok :: "Event list \<Rightarrow> AggState \<Rightarrow> uint64 \<Rightarrow> bool" where
  "agg_ok events st k \<longleftrightarrow>
     (case info st k of
        None \<Rightarrow> stack_events k events = []
      | Some pp \<Rightarrow>
          stack_events k events \<noteq> [] \<and>
          Value pp = of_nat (length (stack_events k events)) \<and>
          Timestamps (Breakdown pp) = map Ts (stack_events k events) \<and>
          Values (Breakdown pp) = replicate (length (stack_events k events)) 1 \<and>
          list_all2 (\<lambda>i e. \<exists>ls. fst (registry st) (concat (event_labels e)) = Some ls \<and> ID ls = i)
            (LabelSets (Breakdown pp)) (stack_events k events))"

text \<open>
  The members of a list whose key is met for the first time, with the keys in \<open>seen\<close>
  counted as met already: what a loop that skips the keys it has stored gets to.
\<close>

fun first_by :: "('a \<Rightarrow> 'k) \<Rightarrow> 'k set \<Rightarrow> 'a list \<Rightarrow> 'a list" where
  "first_by key seen [] = []"
| "first_by key seen (x # xs) =
     (if key x \<in> seen then first_by key seen xs
      else x # first_by key (insert (key x) seen) xs)"

text \<open>The key of the \<open>functions\<close> map for a frame.\<close>

definition function_key :: "Frame \<Rightarrow> string" where
  "function_key frame = Fn frame @ File frame"

text \<open>The identifier a table holds for a string (0, the zero value of a map read, when absent).\<close>

definition sid :: "(string \<times> 64 word) list \<Rightarrow> string \<Rightarrow> 64 word" where
  "sid t s = (case map_of t s of Some i \<Rightarrow> i | None \<Rightarrow> 0)"

text \<open>A table that holds every entry of another one.\<close>

definition extends :: "StrTab \<Rightarrow> StrTab \<Rightarrow> bool" where
  "extends t t' \<longleftrightarrow> map_of t \<subseteq>\<^sub>m map_of t'"

text \<open>The Function record written for the frame that created the \<open>i+1\<close>-th entry of
  \<open>functions\<close>, with the string identifiers read from table \<open>t\<close>.\<close>

definition function_record :: "StrTab \<Rightarrow> nat \<times> Frame \<Rightarrow> pfield" where
  "function_record t e =
     (let (i, frame) = e
      in Embedded 5
           [Uint64 1 (of_nat (i + 1)), Int64 2 (sid t (Fn frame)), Int64 4 (sid t (File frame))])"

text \<open>The Location record written for a frame, given the finished \<open>functions\<close> map.\<close>

definition location_record :: "Functions \<Rightarrow> Frame \<Rightarrow> pfield" where
  "location_record functions frame =
     Embedded 4
       [Uint64 1 (PC frame), Uint64 2 1, Uint64 3 (PC frame),
        Embedded 4 [Uint64 1 (sid functions (function_key frame)), Int64 2 (Line frame)]]"

text \<open>The frames a loop over \<open>parsed.Stacks\<close> visits, for an order of the keys.\<close>

definition scanned :: "ParseResult \<Rightarrow> uint64 list \<Rightarrow> Frame list" where
  "scanned parsed order = concat (map snd (range_map (Stacks parsed) order))"

text \<open>The frames for which the Function loop writes a record, and the \<open>functions\<close> map
  the loop ends with.\<close>

definition function_firsts :: "ParseResult \<Rightarrow> RangeOrder \<Rightarrow> Frame list" where
  "function_firsts parsed ord = first_by function_key {} (scanned parsed (funcs_order ord))"

definition functions_of :: "ParseResult \<Rightarrow> RangeOrder \<Rightarrow> Functions" where
  "functions_of parsed ord =
     map (\<lambda>(i, frame). (function_key frame, of_nat (i + 1)))
       (enumerate 0 (function_firsts parsed ord))"

text \<open>The frames for which the Location loop writes a record.\<close>

definition location_firsts :: "ParseResult \<Rightarrow> RangeOrder \<Rightarrow> Frame list" where
  "location_firsts parsed ord = first_by PC {} (scanned parsed (locs_order ord))"

text \<open>The identifier of a top-level Location record (field 4, with the identifier in
  its field 1 written first); \<open>None\<close> for any other record.\<close>

fun location_id :: "pfield \<Rightarrow> uint64 option" where
  "location_id (Embedded n (Uint64 m pc # rest)) = (if n = 4 \<and> m = 1 then Some pc else None)"
| "location_id r = None"

text \<open>
  The records written through the stream, given the LabelSet records \<open>lrecs\<close> and the
  string table \<open>t\<close> the run ends with.
\<close>

definition sections ::
  "ParseResult \<Rightarrow> Time \<Rightarrow> Time \<Rightarrow> RangeOrder \<Rightarrow> pfield list \<Rightarrow> StrTab \<Rightarrow> pfield list" where
  "sections parsed start stop ord lrecs t =
     [Embedded 1 [Int64 1 0, Int64 2 1]] @ lrecs @
     map (sample_record (Stacks parsed))
       (range_map (info (aggregate (Events parsed))) (info_order ord)) @
     [Embedded 3 [Uint64 1 1]] @
     map (function_record t) (enumerate 0 (function_firsts parsed ord)) @
     map (location_record (functions_of parsed ord)) (location_firsts parsed ord) @
     [Int64 9 (UnixNano start), Int64 10 (Sub stop start),
      Embedded 11 [Int64 1 0, Int64 2 1], Int64 12 1,
      Int64 15 (sid t ''nanoseconds'')]"

text \<open>The entries of the string table of an artifact (its hand-written nodes of field
  6), in order.\<close>

fun table_strings :: "pfield list \<Rightarrow> string list" where
  "table_strings [] = []"
| "table_strings (Tagged tag s # rs) =
     (if drop_bit 3 tag = 6 then s # table_strings rs else table_strings rs)"
| "table_strings (r # rs) = table_strings rs"

text \<open>Every frame of every stack of the input.\<close>

definition all_frames :: "ParseResult \<Rightarrow> Frame set" where
  "all_frames parsed = {frame. \<exists>k stk. Stacks parsed k = Some stk \<and> frame \<in> set stk}"

text \<open>
  What the stream makes of the calls. The stream library (molecule) is not part of the
  repository; as the comment at the string table says, it declines to write length-0
  values: a scalar call with the value 0 writes nothing, a packed call with no values
  writes nothing, and an embedded message is written whatever is inside. The entries of
  the string table are appended by hand and bypass the stream. \<open>written\<close> maps the
  sequence of calls to the records of the artifact.
\<close>

fun write_field :: "pfield \<Rightarrow> pfield list" where
  "write_field (Uint64 n v) = (if v = 0 then [] else [Uint64 n v])"
| "write_field (Int64 n v) = (if v = 0 then [] else [Int64 n v])"
| "write_field (Int64Packed n vs) = (if vs = [] then [] else [Int64Packed n vs])"
| "write_field (Embedded n fs) = [Embedded n (concat (map write_field fs))]"
| "write_field (Tagged tag s) = [Tagged tag s]"

definition written :: "pfield list \<Rightarrow> pfield list" where
  "written rs = concat (map write_field rs)"

text \<open>The place of a field number in the order of the sections.\<close>

definition section_rank :: "nat \<Rightarrow> nat" where
  "section_rank n =
     (if n = 1 then 0 else if n = 16 then 1 else if n = 2 then 2 else if n = 3 then 3
      else if n = 5 then 4 else if n = 4 then 5 else if n = 9 then 6 else if n = 10 then 7
      else if n = 11 then 8 else if n = 12 then 9 else if n = 15 then 10 else 11)"

section \<open>Properties of the string table\<close>

lemma Get_hit: "map_of t s = Some i \<Longrightarrow> Get s t = (i, t)"
  by (simp add: Get_def)

lemma Get_miss: "map_of t s = None \<Longrightarrow> Get s t = (of_nat (length t), t @ [(s, of_nat (length t))])"
  by (simp add: Get_def Let_def)

lemma map_of_Get: "map_of (snd (Get s t)) s = Some (fst (Get s t))"
  by (cases "map_of t s") (simp_all add: Get_def Let_def map_add_Some_iff)

lemma Get_mono: "map_of t s' = Some i \<Longrightarrow> map_of (snd (Get s t)) s' = Some i"
  by (auto simp: Get_def Let_def split: option.splits)

lemma Get_again: "Get s (snd (Get s t)) = (fst (Get s t), snd (Get s t))"
  using map_of_Get [of s t] by (simp add: Get_hit)

lemma dense_strtab_Nil: "dense_strtab []"
  by (simp add: dense_strtab_def)

lemma dense_strtab_Get: "dense_strtab t \<Longrightarrow> dense_strtab (snd (Get s t))"
  by (auto simp: dense_strtab_def Get_def Let_def map_of_eq_None_iff split: option.splits)

lemma dense_strtab_fold: "dense_strtab t \<Longrightarrow> dense_strtab (fold (\<lambda>s t. snd (Get s t)) ss t)"
  by (induction ss arbitrary: t) (simp_all add: dense_strtab_Get)

lemma keys_Get: "set (map fst (snd (Get s t))) = insert s (set (map fst t))"
proof (cases "map_of t s")
  case None
  then show ?thesis by (simp add: Get_def Let_def)
next
  case (Some i)
  then have "s \<in> fst ` set t" by (metis map_of_eq_None_iff option.distinct(1))
  with Some show ?thesis by (auto simp: Get_def)
qed

text \<open>
  C9. \<open>Get\<close> returns the stored identifier of a string that is in the table and
  leaves the table as it is; for a string that is not, it returns the size of the
  table and appends the string with that identifier. A second \<open>Get\<close> of the same
  string returns the same identifier and changes nothing. The identifiers are dense
  from 0: a table whose \<open>i\<close>-th entry has identifier \<open>i\<close> keeps that shape, and every
  run of \<open>Get\<close> calls from the empty table has it.
\<close>

theorem Get_contract:
  "(map_of t s = Some i \<longrightarrow> Get s t = (i, t)) \<and>
   (map_of t s = None \<longrightarrow>
      Get s t = (of_nat (length t), t @ [(s, of_nat (length t))])) \<and>
   Get s (snd (Get s t)) = (fst (Get s t), snd (Get s t)) \<and>
   (dense_strtab t \<longrightarrow> dense_strtab (snd (Get s t))) \<and>
   dense_strtab (fold (\<lambda>s t. snd (Get s t)) ss [])"
  using Get_hit Get_miss Get_again dense_strtab_Get dense_strtab_fold [OF dense_strtab_Nil]
  by blast

theorem Get_contract_witness:
  "map_of [(''time'', 0 :: int64)] ''time'' = Some 0 \<and>
   Get ''time'' [(''time'', 0)] = (0, [(''time'', 0)]) \<and>
   map_of [(''time'', 0 :: int64)] ''ns'' = None \<and>
   Get ''ns'' [(''time'', 0)] = (1, [(''time'', 0), (''ns'', 1)]) \<and>
   dense_strtab [(''time'', 0)] \<and>
   dense_strtab (snd (Get ''ns'' [(''time'', 0)]))"
  using Get_contract [of "[(''time'', 0)]" "''time''" 0 "[]"]
    Get_contract [of "[(''time'', 0)]" "''ns''" 0 "[]"]
  by (simp add: dense_strtab_def)

section \<open>Properties of the label-set registry\<close>

lemma resolve_miss:
  "ids (concat labels) = None \<Longrightarrow>
   resolve_labelset labels (ids, sets) =
     (\<lparr>ID = of_nat (length sets), Labels = labels\<rparr>,
      (ids(concat labels \<mapsto> \<lparr>ID = of_nat (length sets), Labels = labels\<rparr>),
       sets @ [\<lparr>ID = of_nat (length sets), Labels = labels\<rparr>]))"
  by (simp add: resolve_labelset_def Let_def)

lemma resolve_hit:
  "ids (concat labels) = Some ls \<Longrightarrow> resolve_labelset labels (ids, sets) = (ls, (ids, sets))"
  by (simp add: resolve_labelset_def)

lemma resolve_stored:
  "fst (snd (resolve_labelset labels reg)) (concat labels) = Some (fst (resolve_labelset labels reg))"
  by (cases reg) (simp add: resolve_labelset_def Let_def split: option.splits)

lemma resolve_mono:
  "fst reg s = Some ls \<Longrightarrow> fst (snd (resolve_labelset labels reg)) s = Some ls"
  by (cases reg) (auto simp: resolve_labelset_def Let_def split: option.splits)

lemma resolve_same_key:
  assumes "concat labels' = concat labels"
  shows "resolve_labelset labels' (snd (resolve_labelset labels reg)) =
         (fst (resolve_labelset labels reg), snd (resolve_labelset labels reg))"
proof -
  obtain ids sets where r: "snd (resolve_labelset labels reg) = (ids, sets)"
    by (cases "snd (resolve_labelset labels reg)")
  have "ids (concat labels') = Some (fst (resolve_labelset labels reg))"
    using resolve_stored [of labels reg] assms r by simp
  then show ?thesis
    using r by (simp add: resolve_hit)
qed

lemma resolve_dense:
  "dense_labelsets (snd reg) \<Longrightarrow> dense_labelsets (snd (snd (resolve_labelset labels reg)))"
  by (cases reg) (auto simp: resolve_labelset_def dense_labelsets_def Let_def split: option.splits)

lemma resolve_fold_dense:
  "dense_labelsets (snd reg) \<Longrightarrow>
   dense_labelsets (snd (fold (\<lambda>l r. snd (resolve_labelset l r)) lss reg))"
  by (induction lss arbitrary: reg) (simp_all add: resolve_dense)

lemma aggregate_event_registry:
  "registry (aggregate_event st e) = registry st \<or>
   registry (aggregate_event st e) = snd (resolve_labelset (event_labels e) (registry st))"
  by (cases "Type e") (simp_all add: aggregate_event_def Let_def split: prod.splits)

lemma aggregate_snoc: "aggregate (es @ [e]) = aggregate_event (aggregate es) e"
  by (simp add: aggregate_def)

lemma aggregate_dense: "dense_labelsets (snd (registry (aggregate events)))"
proof (induction events rule: rev_induct)
  case Nil
  show ?case by (simp add: aggregate_def init_agg_def dense_labelsets_def)
next
  case (snoc e es)
  then show ?case
    using aggregate_event_registry [of "aggregate es" e]
    by (auto simp: aggregate_snoc resolve_dense)
qed

text \<open>
  C5. The registry gives a label sequence whose concatenation key is new a label set
  with the next identifier (the count of label sets so far, so 0 first) and appends
  it; for a key seen before it returns the stored label set and changes nothing.
  Hence a label sequence whose concatenation equals that of an earlier, different
  sequence gets the earlier sequence's label set. The identifiers are dense in
  creation order, for any run of lookups from the empty registry and for the registry
  the aggregation pass builds.
\<close>

theorem registry_contract:
  "(ids (concat labels) = None \<longrightarrow>
      resolve_labelset labels (ids, sets) =
        (\<lparr>ID = of_nat (length sets), Labels = labels\<rparr>,
         (ids(concat labels \<mapsto> \<lparr>ID = of_nat (length sets), Labels = labels\<rparr>),
          sets @ [\<lparr>ID = of_nat (length sets), Labels = labels\<rparr>]))) \<and>
   (ids (concat labels) = Some ls \<longrightarrow>
      resolve_labelset labels (ids, sets) = (ls, (ids, sets))) \<and>
   (concat labels' = concat labels \<longrightarrow>
      resolve_labelset labels' (snd (resolve_labelset labels reg)) =
        (fst (resolve_labelset labels reg), snd (resolve_labelset labels reg))) \<and>
   dense_labelsets (snd (fold (\<lambda>l r. snd (resolve_labelset l r)) lss (Map.empty, []))) \<and>
   dense_labelsets (snd (registry (aggregate events)))"
proof -
  have "dense_labelsets (snd (Map.empty :: string \<rightharpoonup> LabelSet, [] :: LabelSet list))"
    by (simp add: dense_labelsets_def)
  then have "dense_labelsets (snd (fold (\<lambda>l r. snd (resolve_labelset l r)) lss (Map.empty, [])))"
    by (rule resolve_fold_dense)
  then show ?thesis
    using resolve_miss resolve_hit resolve_same_key aggregate_dense by blast
qed

theorem registry_contract_witness:
  "concat [''a'', ''bc''] = concat [''ab'', ''c''] \<and> [''a'', ''bc''] \<noteq> [''ab'', ''c''] \<and>
   resolve_labelset [''ab'', ''c''] (Map.empty, []) =
     (\<lparr>ID = 0, Labels = [''ab'', ''c'']\<rparr>,
      ([''abc'' \<mapsto> \<lparr>ID = 0, Labels = [''ab'', ''c'']\<rparr>], [\<lparr>ID = 0, Labels = [''ab'', ''c'']\<rparr>])) \<and>
   resolve_labelset [''a'', ''bc'']
       ([''abc'' \<mapsto> \<lparr>ID = 0, Labels = [''ab'', ''c'']\<rparr>], [\<lparr>ID = 0, Labels = [''ab'', ''c'']\<rparr>]) =
     (\<lparr>ID = 0, Labels = [''ab'', ''c'']\<rparr>,
      ([''abc'' \<mapsto> \<lparr>ID = 0, Labels = [''ab'', ''c'']\<rparr>], [\<lparr>ID = 0, Labels = [''ab'', ''c'']\<rparr>]))"
  using registry_contract [of Map.empty "[''ab'', ''c'']" "[]" "\<lparr>ID = 0, Labels = []\<rparr>" "[''a'', ''bc'']" "(Map.empty, [])" "[]" "[]"]
    registry_contract [of "[''abc'' \<mapsto> \<lparr>ID = 0, Labels = [''ab'', ''c'']\<rparr>]" "[''a'', ''bc'']"
       "[\<lparr>ID = 0, Labels = [''ab'', ''c'']\<rparr>]" "\<lparr>ID = 0, Labels = [''ab'', ''c'']\<rparr>" "[]" "(Map.empty, [])" "[]" "[]"]
  by simp

section \<open>Properties of the aggregation pass\<close>

lemma aggregate_event_other: "Type e \<noteq> EvCPUSample \<Longrightarrow> aggregate_event st e = st"
  by (cases "Type e") (simp_all add: aggregate_event_def)

lemma aggregate_event_registry_mono:
  "fst (registry st) s = Some ls \<Longrightarrow> fst (registry (aggregate_event st e)) s = Some ls"
  using aggregate_event_registry [of st e] resolve_mono [of "registry st" s ls "event_labels e"]
  by auto

lemma aggregate_event_sample:
  fixes st :: AggState and e :: Event
  defines "pp \<equiv> (case info st (StkID e) of Some pp \<Rightarrow> pp | None \<Rightarrow> new_PprofInfo)"
  defines "r \<equiv> resolve_labelset (event_labels e) (registry st)"
  assumes "Type e = EvCPUSample"
  shows "info (aggregate_event st e) =
           (info st)(StkID e \<mapsto>
             \<lparr>Value = Value pp + 1,
              Breakdown = (Breakdown pp)\<lparr>Timestamps := Timestamps (Breakdown pp) @ [Ts e],
                           Values := Values (Breakdown pp) @ [1],
                           LabelSets := LabelSets (Breakdown pp) @ [ID (fst r)]\<rparr>\<rparr>)"
    and "registry (aggregate_event st e) = snd r"
  using assms by (simp_all add: aggregate_event_def Let_def split: prod.splits)

lemma agg_ok_step:
  assumes "agg_ok es st k"
  shows "agg_ok (es @ [e]) (aggregate_event st e) k"
proof (cases "Type e = EvCPUSample")
  case False
  then show ?thesis
    using assms by (simp add: aggregate_event_other agg_ok_def stack_events_def split: option.splits)
next
  case sample: True
  let ?st' = "aggregate_event st e"
  let ?P = "\<lambda>st i e. \<exists>ls. fst (registry st) (concat (event_labels e)) = Some ls \<and> ID ls = i"
  have mono: "list_all2 (?P st) xs ys \<Longrightarrow> list_all2 (?P ?st') xs ys" for xs ys
    by (erule list_all2_mono) (auto dest: aggregate_event_registry_mono [where e = e])
  note step = aggregate_event_sample [of e st, OF sample]
  show ?thesis
  proof (cases "StkID e = k")
    case False
    then have "info ?st' k = info st k" "stack_events k (es @ [e]) = stack_events k es"
      by (simp_all add: step stack_events_def)
    then show ?thesis
      using assms mono by (auto simp: agg_ok_def split: option.splits)
  next
    case same: True
    have ev: "stack_events k (es @ [e]) = stack_events k es @ [e]"
      using sample same by (simp add: stack_events_def)
    have new: "?P ?st' (ID (fst (resolve_labelset (event_labels e) (registry st)))) e"
      using resolve_stored [of "event_labels e" "registry st"] by (simp add: step)
    show ?thesis
    proof (cases "info st k")
      case None
      then have "stack_events k es = []" using assms by (simp add: agg_ok_def)
      then show ?thesis
        using None same new by (simp add: agg_ok_def step ev new_PprofInfo_def)
    next
      case (Some pp)
      then have old: "Value pp = of_nat (length (stack_events k es))"
        "Timestamps (Breakdown pp) = map Ts (stack_events k es)"
        "Values (Breakdown pp) = replicate (length (stack_events k es)) 1"
        "list_all2 (?P st) (LabelSets (Breakdown pp)) (stack_events k es)"
        using assms by (simp_all add: agg_ok_def)
      have "list_all2 (?P ?st') (LabelSets (Breakdown pp) @ [ID (fst (resolve_labelset (event_labels e) (registry st)))])
              (stack_events k es @ [e])"
        using mono [OF old(4)] new by (simp add: list_all2_appendI)
      then show ?thesis
        using Some same old(1-3)
        by (simp add: agg_ok_def step ev replicate_append_same)
    qed
  qed
qed

lemma agg_ok_aggregate: "agg_ok events (aggregate events) k"
proof (induction events rule: rev_induct)
  case Nil
  show ?case by (simp add: agg_ok_def aggregate_def init_agg_def stack_events_def)
next
  case (snoc e es)
  then show ?case by (simp add: aggregate_snoc agg_ok_step)
qed

text \<open>
  C4. For every event stream and every aggregate the pass builds, \<open>Value\<close> is the sum
  of \<open>Breakdown.Values\<close> (in 64-bit arithmetic, as both are computed), the three
  breakdown sequences have the same length, and the entries are those of the stack's
  CPU-sample events in stream order: the timestamps are the events' timestamps, each
  value is 1, and each label-set identifier is the one registered for the event's
  labels.
\<close>

theorem aggregate_invariant:
  assumes "info (aggregate events) k = Some pp"
  shows "Value pp = sum_list (Values (Breakdown pp)) \<and>
         length (Timestamps (Breakdown pp)) = length (Values (Breakdown pp)) \<and>
         length (Values (Breakdown pp)) = length (LabelSets (Breakdown pp)) \<and>
         Timestamps (Breakdown pp) = map Ts (stack_events k events) \<and>
         Values (Breakdown pp) = map (\<lambda>e. 1) (stack_events k events) \<and>
         list_all2
           (\<lambda>i e. \<exists>ls. fst (registry (aggregate events)) (concat (event_labels e)) = Some ls \<and>
                       ID ls = i)
           (LabelSets (Breakdown pp)) (stack_events k events)"
proof -
  let ?n = "length (stack_events k events)"
  have ok: "Value pp = of_nat ?n"
    "Timestamps (Breakdown pp) = map Ts (stack_events k events)"
    "Values (Breakdown pp) = replicate ?n 1"
    "list_all2
           (\<lambda>i e. \<exists>ls. fst (registry (aggregate events)) (concat (event_labels e)) = Some ls \<and>
                       ID ls = i)
           (LabelSets (Breakdown pp)) (stack_events k events)"
    using agg_ok_aggregate [of events k] assms by (simp_all add: agg_ok_def)
  have "sum_list (Values (Breakdown pp)) = of_nat ?n"
    by (simp add: ok(3) sum_list_replicate)
  moreover have "length (LabelSets (Breakdown pp)) = ?n"
    using ok(4) by (simp add: list_all2_lengthD)
  ultimately show ?thesis
    using ok by (simp add: map_replicate_const)
qed

theorem aggregate_invariant_witness:
  "info (aggregate
      [\<lparr>Type = EvCPUSample, G = 7, Ts = 10, StkID = 3\<rparr>,
       \<lparr>Type = EvOther 2, G = 7, Ts = 11, StkID = 3\<rparr>,
       \<lparr>Type = EvCPUSample, G = 8, Ts = 12, StkID = 4\<rparr>,
       \<lparr>Type = EvCPUSample, G = 8, Ts = 13, StkID = 3\<rparr>]) 3 =
     Some \<lparr>Value = 2,
       Breakdown = \<lparr>Timestamps = [10, 13], Values = [1, 1], LabelSets = [0, 1]\<rparr>\<rparr> \<and>
   Value \<lparr>Value = 2,
       Breakdown = \<lparr>Timestamps = [10, 13], Values = [1, 1], LabelSets = [0, 1]\<rparr>\<rparr> =
     sum_list (Values (Breakdown \<lparr>Value = 2,
       Breakdown = \<lparr>Timestamps = [10, 13], Values = [1, 1], LabelSets = [0, 1]\<rparr>\<rparr>)) \<and>
   Timestamps (Breakdown \<lparr>Value = 2,
       Breakdown = \<lparr>Timestamps = [10, 13], Values = [1, 1], LabelSets = [0, 1]\<rparr>\<rparr>) =
     map Ts (stack_events 3
      [\<lparr>Type = EvCPUSample, G = 7, Ts = 10, StkID = 3\<rparr>,
       \<lparr>Type = EvOther 2, G = 7, Ts = 11, StkID = 3\<rparr>,
       \<lparr>Type = EvCPUSample, G = 8, Ts = 12, StkID = 4\<rparr>,
       \<lparr>Type = EvCPUSample, G = 8, Ts = 13, StkID = 3\<rparr>])"
proof -
  have h: "info (aggregate
      [\<lparr>Type = EvCPUSample, G = 7, Ts = 10, StkID = 3\<rparr>,
       \<lparr>Type = EvOther 2, G = 7, Ts = 11, StkID = 3\<rparr>,
       \<lparr>Type = EvCPUSample, G = 8, Ts = 12, StkID = 4\<rparr>,
       \<lparr>Type = EvCPUSample, G = 8, Ts = 13, StkID = 3\<rparr>]) 3 =
     Some \<lparr>Value = 2,
       Breakdown = \<lparr>Timestamps = [10, 13], Values = [1, 1], LabelSets = [0, 1]\<rparr>\<rparr>"
    by code_simp
  from aggregate_invariant [OF h] h show ?thesis by blast
qed

section \<open>Properties of the loops of the serializer\<close>

lemma extends_refl: "extends t t"
  by (simp add: extends_def)

lemma extends_trans: "extends t t' \<Longrightarrow> extends t' t'' \<Longrightarrow> extends t t''"
  unfolding extends_def by (rule map_le_trans)

lemma extends_Get: "extends t (snd (Get s t))"
  unfolding extends_def map_le_def using Get_mono by (metis domD)

lemma extends_sid: "extends t t' \<Longrightarrow> map_of t s = Some i \<Longrightarrow> sid t' s = i"
  unfolding extends_def map_le_def sid_def by (metis domI option.simps(5))

lemma sid_Get: "extends (snd (Get s t)) t' \<Longrightarrow> sid t' s = fst (Get s t)"
  using map_of_Get [of s t] by (rule extends_sid [rotated])

lemma fold_fold_concat: "fold (\<lambda>xs. fold f xs) xss st = fold f (concat xss) st"
  by (induction xss arbitrary: st) simp_all

lemma first_by_subset: "set (first_by key seen xs) \<subseteq> set xs"
  by (induction xs arbitrary: seen) auto

lemma first_by_keys: "key ` set (first_by key seen xs) = key ` set xs - seen"
  by (induction xs arbitrary: seen) auto

lemma first_by_distinct: "distinct (map key (first_by key seen xs))"
proof (induction xs arbitrary: seen)
  case Nil
  show ?case by simp
next
  case (Cons x xs)
  have "key x \<notin> key ` set (first_by key (insert (key x) seen) xs)"
    by (simp add: first_by_keys)
  with Cons show ?case by simp
qed

text \<open>The Function loop.\<close>

lemma function_frame_seen:
  assumes "function_key frame \<in> fst ` set fns"
  shows "function_frame frame (fns, enc) = (fns, enc)"
proof -
  obtain i where "map_of fns (Fn frame @ File frame) = Some i"
    using assms by (metis function_key_def map_of_eq_None_iff not_Some_eq)
  then show ?thesis
    by (simp add: function_frame_def)
qed

lemma function_frame_new:
  assumes "function_key frame \<notin> fst ` set fns"
  shows "function_frame frame (fns, enc) =
     (fns @ [(function_key frame, of_nat (length fns + 1))],
      \<lparr>buf = buf enc @
         [Embedded 5 [Uint64 1 (of_nat (length fns + 1)),
            Int64 2 (fst (Get (Fn frame) (strtab enc))),
            Int64 4 (fst (Get (File frame) (snd (Get (Fn frame) (strtab enc)))))]],
       strtab = snd (Get (File frame) (snd (Get (Fn frame) (strtab enc))))\<rparr>)"
proof -
  have "map_of fns (Fn frame @ File frame) = None"
    using assms by (simp add: map_of_eq_None_iff function_key_def)
  then show ?thesis
    by (simp add: function_frame_def function_key_def Let_def split: prod.splits)
qed

lemma function_loop:
  "\<exists>t'. fold function_frame frames (fns, enc) =
     (fns @
        map (\<lambda>(i, frame). (function_key frame, of_nat (i + 1)))
          (enumerate (length fns) (first_by function_key (fst ` set fns) frames)),
      \<lparr>buf = buf enc @
         map (function_record t')
          (enumerate (length fns) (first_by function_key (fst ` set fns) frames)),
       strtab = t'\<rparr>) \<and>
     extends (strtab enc) t' \<and>
     (dense_strtab (strtab enc) \<longrightarrow> dense_strtab t') \<and>
     fst ` set t' = fst ` set (strtab enc) \<union>
       (Fn ` set (first_by function_key (fst ` set fns) frames) \<union>
        File ` set (first_by function_key (fst ` set fns) frames))"
proof (induction frames arbitrary: fns enc)
  case Nil
  show ?case by (rule exI [of _ "strtab enc"]) (simp add: extends_refl)
next
  case (Cons frame frames)
  show ?case
  proof (cases "function_key frame \<in> fst ` set fns")
    case True
    then show ?thesis
      using Cons [of fns enc] by (simp add: function_frame_seen)
  next
    case False
    let ?t1 = "snd (Get (File frame) (snd (Get (Fn frame) (strtab enc))))"
    let ?fs1 = "fns @ [(function_key frame, of_nat (length fns + 1))]"
    let ?rec = "Embedded 5 [Uint64 1 (of_nat (length fns + 1)),
            Int64 2 (fst (Get (Fn frame) (strtab enc))),
            Int64 4 (fst (Get (File frame) (snd (Get (Fn frame) (strtab enc)))))]"
    let ?enc1 = "\<lparr>buf = buf enc @ [?rec], strtab = ?t1\<rparr>"
    let ?rest = "first_by function_key (insert (function_key frame) (fst ` set fns)) frames"
    have seen1: "fst ` set ?fs1 = insert (function_key frame) (fst ` set fns)"
      by auto
    obtain t' where
      run: "fold function_frame frames (?fs1, ?enc1) =
        (?fs1 @ map (\<lambda>(i, frame). (function_key frame, of_nat (i + 1)))
            (enumerate (length ?fs1) ?rest),
         \<lparr>buf = buf ?enc1 @ map (function_record t') (enumerate (length ?fs1) ?rest),
          strtab = t'\<rparr>)"
      and ext: "extends ?t1 t'"
      and dense: "dense_strtab ?t1 \<longrightarrow> dense_strtab t'"
      and keys: "fst ` set t' = fst ` set ?t1 \<union> (Fn ` set ?rest \<union> File ` set ?rest)"
      using Cons [of ?fs1 ?enc1] unfolding seen1 by auto
    have e1: "extends (snd (Get (Fn frame) (strtab enc))) t'"
      using extends_Get ext by (rule extends_trans)
    have rec: "function_record t' (length fns, frame) = ?rec"
      using sid_Get [OF e1] sid_Get [OF ext] by (simp add: function_record_def)
    have e0: "extends (strtab enc) t'"
      using extends_Get e1 by (rule extends_trans)
    have k1: "fst ` set ?t1 = insert (File frame) (insert (Fn frame) (fst ` set (strtab enc)))"
      using keys_Get [of "File frame" "snd (Get (Fn frame) (strtab enc))"]
        keys_Get [of "Fn frame" "strtab enc"] by simp
    have d: "dense_strtab (strtab enc) \<longrightarrow> dense_strtab t'"
      using dense by (simp add: dense_strtab_Get)
    show ?thesis
      apply (rule exI [of _ t'])
      using False run rec e0 d keys k1
      by (simp add: function_frame_new)
  qed
qed

text \<open>The Location loop.\<close>

lemma location_frame_eq:
  "location_frame fns frame (locs, enc) =
     (if PC frame \<in> locs then (locs, enc)
      else (insert (PC frame) locs, enc\<lparr>buf := buf enc @ [location_record fns frame]\<rparr>))"
  by (simp add: location_frame_def location_record_def function_key_def sid_def Let_def)

lemma location_loop:
  "fold (location_frame fns) frames (locs, enc) =
     (locs \<union> PC ` set frames,
      enc\<lparr>buf := buf enc @ map (location_record fns) (first_by PC locs frames)\<rparr>)"
proof (induction frames arbitrary: locs enc)
  case Nil
  show ?case by simp
next
  case (Cons frame frames)
  show ?case
    by (simp add: location_frame_eq Cons insert_absorb)
qed

text \<open>The LabelSet loop.\<close>

lemma label_pairs_two:
  "label_pairs [k, v] t =
     Inr ([Embedded 2 [Int64 1 (fst (Get k t)), Int64 2 (fst (Get v (snd (Get k t))))]],
          snd (Get v (snd (Get k t))))"
  by (simp add: Let_def split: prod.splits)

lemma emit_labelset_two:
  assumes "length (Labels ls) = 2"
  shows "\<exists>r t'. emit_labelset ls enc = Inr \<lparr>buf = buf enc @ [r], strtab = t'\<rparr> \<and>
     (\<exists>fs. r = Embedded 16 fs) \<and> extends (strtab enc) t' \<and>
     (dense_strtab (strtab enc) \<longrightarrow> dense_strtab t') \<and>
     fst ` set t' = fst ` set (strtab enc) \<union> set (Labels ls)"
proof -
  obtain k v where kv: "Labels ls = [k, v]"
    using assms by (auto simp: length_Suc_conv numeral_2_eq_2)
  let ?t1 = "snd (Get k (strtab enc))"
  let ?t2 = "snd (Get v ?t1)"
  have "extends (strtab enc) ?t2"
    using extends_Get extends_Get by (rule extends_trans)
  moreover have "fst ` set ?t2 = fst ` set (strtab enc) \<union> set (Labels ls)"
    using keys_Get [of v ?t1] keys_Get [of k "strtab enc"] kv by auto
  moreover have "dense_strtab (strtab enc) \<longrightarrow> dense_strtab ?t2"
    by (simp add: dense_strtab_Get)
  moreover have "emit_labelset ls enc =
      Inr \<lparr>buf = buf enc @
        [Embedded 16 [Uint64 1 (ID ls),
           Embedded 2 [Int64 1 (fst (Get k (strtab enc))), Int64 2 (fst (Get v ?t1))]]],
        strtab = ?t2\<rparr>"
    by (simp add: emit_labelset_def kv label_pairs_two del: label_pairs.simps)
  ultimately show ?thesis
    by simp
qed

lemma labelsets_loop:
  assumes "\<forall>ls\<in>set sets. length (Labels ls) = 2"
  shows "\<exists>recs t'. emit_labelsets sets enc = Inr \<lparr>buf = buf enc @ recs, strtab = t'\<rparr> \<and>
     map field_number recs = replicate (length sets) 16 \<and> extends (strtab enc) t' \<and>
     (dense_strtab (strtab enc) \<longrightarrow> dense_strtab t') \<and>
     fst ` set t' = fst ` set (strtab enc) \<union> \<Union> (set ` Labels ` set sets) \<and>
     (\<forall>r\<in>set recs. \<exists>fs. r = Embedded 16 fs)"
  using assms
proof (induction sets arbitrary: enc)
  case Nil
  show ?case
    by (rule exI [of _ "[]"], rule exI [of _ "strtab enc"]) (simp add: extends_refl)
next
  case (Cons ls sets)
  then have "length (Labels ls) = 2" by simp
  from emit_labelset_two [OF this, of enc]
  obtain r t1 where
    one: "emit_labelset ls enc = Inr \<lparr>buf = buf enc @ [r], strtab = t1\<rparr>"
    and r: "\<exists>fs. r = Embedded 16 fs" and ext1: "extends (strtab enc) t1"
    and dense1: "dense_strtab (strtab enc) \<longrightarrow> dense_strtab t1"
    and keys1: "fst ` set t1 = fst ` set (strtab enc) \<union> set (Labels ls)"
    by blast
  let ?enc1 = "\<lparr>buf = buf enc @ [r], strtab = t1\<rparr>"
  from Cons.IH [of ?enc1] Cons.prems
  obtain recs t' where
    rest: "emit_labelsets sets ?enc1 = Inr \<lparr>buf = buf ?enc1 @ recs, strtab = t'\<rparr>"
    and recs: "map field_number recs = replicate (length sets) 16"
    and ext: "extends (strtab ?enc1) t'"
    and dense: "dense_strtab (strtab ?enc1) \<longrightarrow> dense_strtab t'"
    and keys: "fst ` set t' = fst ` set (strtab ?enc1) \<union> \<Union> (set ` Labels ` set sets)"
    and emb: "\<forall>r\<in>set recs. \<exists>fs. r = Embedded 16 fs"
    by auto
  have "extends (strtab enc) t'"
    using ext1 ext by (auto intro: extends_trans)
  moreover have "fst ` set t' =
      fst ` set (strtab enc) \<union> \<Union> (set ` Labels ` set (ls # sets))"
    using keys keys1 by auto
  moreover have "field_number r = 16"
    using r by auto
  ultimately show ?case
    apply (intro exI [of _ "r # recs"] exI [of _ t'])
    using one rest recs r emb dense dense1 by simp
qed

text \<open>What the aggregation pass hands to the serializer.\<close>

lemma resolve_labels_two:
  assumes "\<forall>ls\<in>set (snd reg). length (Labels ls) = 2" and "length labels = 2"
  shows "\<forall>ls\<in>set (snd (snd (resolve_labelset labels reg))). length (Labels ls) = 2"
  using assms by (cases reg) (auto simp: resolve_labelset_def Let_def split: option.splits)

lemma aggregate_labels_two:
  "\<forall>ls\<in>set (snd (registry (aggregate events))). length (Labels ls) = 2"
proof (induction events rule: rev_induct)
  case Nil
  show ?case by (simp add: aggregate_def init_agg_def)
next
  case (snoc e es)
  have "length (event_labels e) = 2" by (simp add: event_labels_def)
  from resolve_labels_two [OF snoc this] snoc show ?case
    using aggregate_event_registry [of "aggregate es" e]
    by (auto simp: aggregate_snoc)
qed

lemma aggregate_no_samples:
  assumes "\<forall>e\<in>set events. Type e \<noteq> EvCPUSample"
  shows "aggregate events = init_agg"
  using assms
proof (induction events rule: rev_induct)
  case Nil
  show ?case by (simp add: aggregate_def)
next
  case (snoc e es)
  then show ?case by (simp add: aggregate_snoc aggregate_event_other)
qed

lemma aggregate_has_sample:
  assumes "e \<in> set events" and "Type e = EvCPUSample"
  shows "\<exists>pp. info (aggregate events) (StkID e) = Some pp"
proof -
  have "e \<in> set (stack_events (StkID e) events)"
    using assms by (simp add: stack_events_def)
  then have "stack_events (StkID e) events \<noteq> []" by auto
  then show ?thesis
    using agg_ok_aggregate [of events "StkID e"]
    by (cases "info (aggregate events) (StkID e)") (simp_all add: agg_ok_def)
qed

section \<open>The shape of the artifact\<close>

lemma function_record_extends:
  assumes "extends t t'" and "Fn frame \<in> fst ` set t" and "File frame \<in> fst ` set t"
  shows "function_record t' (i, frame) = function_record t (i, frame)"
proof -
  obtain a b where "map_of t (Fn frame) = Some a" "map_of t (File frame) = Some b"
    using assms(2,3) by (metis map_of_eq_None_iff not_Some_eq)
  then have "sid t' (Fn frame) = sid t (Fn frame)" "sid t' (File frame) = sid t (File frame)"
    using extends_sid [OF assms(1)] extends_sid [OF extends_refl] by metis+
  then show ?thesis by (simp add: function_record_def)
qed

lemma enumerate_snd: "x \<in> set (enumerate n xs) \<Longrightarrow> snd x \<in> set xs"
  by (cases x) (auto simp: enumerate_eq_zip dest: set_zip_rightD)

lemma extends_lookup: "extends t t' \<Longrightarrow> map_of t s = Some i \<Longrightarrow> map_of t' s = Some i"
  by (metis extends_def map_le_def domI)

lemma encode_sections_shape:
  obtains lrecs enc where
    "encode_sections parsed start stop ord = Inr enc"
    "buf enc = sections parsed start stop ord lrecs (strtab enc)"
    "map field_number lrecs = replicate (length (snd (registry (aggregate (Events parsed))))) 16"
    "dense_strtab (strtab enc)"
    "extends [(''time'', 0), (''ns'', 1)] (strtab enc)"
    "fst ` set (strtab enc) =
       {''time'', ''ns'', ''nanoseconds''} \<union>
       \<Union> (set ` Labels ` set (snd (registry (aggregate (Events parsed))))) \<union>
       Fn ` set (function_firsts parsed ord) \<union> File ` set (function_firsts parsed ord)"
    "\<forall>r\<in>set lrecs. \<exists>fs. r = Embedded 16 fs"
proof -
  let ?st = "aggregate (Events parsed)"
  let ?ff = "function_firsts parsed ord"
  let ?t0 = "[(''time'', 0), (''ns'', 1)] :: StrTab"
  let ?enc0 = "\<lparr>buf = [Embedded 1 [Int64 1 0, Int64 2 1]], strtab = ?t0\<rparr>"
  have vt: "emit_value_type \<lparr>buf = [], strtab = []\<rparr> = ?enc0"
    by (simp add: emit_value_type_def Get_def)
  have d0: "dense_strtab ?t0"
    by (simp add: dense_strtab_def)
  obtain lrecs t1 where
    ls: "emit_labelsets (snd (registry ?st)) ?enc0 = Inr \<lparr>buf = buf ?enc0 @ lrecs, strtab = t1\<rparr>"
    and lf: "map field_number lrecs = replicate (length (snd (registry ?st))) 16"
    and e1: "extends ?t0 t1" and d1: "dense_strtab t1"
    and k1: "fst ` set t1 = fst ` set ?t0 \<union> \<Union> (set ` Labels ` set (snd (registry ?st)))"
    and le: "\<forall>r\<in>set lrecs. \<exists>fs. r = Embedded 16 fs"
    using labelsets_loop [OF aggregate_labels_two, of "Events parsed" ?enc0] d0 by auto
  let ?samples = "map (sample_record (Stacks parsed)) (range_map (info ?st) (info_order ord))"
  let ?enc2 = "\<lparr>buf = buf ?enc0 @ lrecs @ ?samples @ [Embedded 3 [Uint64 1 1]], strtab = t1\<rparr>"
  have sm: "emit_mapping (emit_samples (Stacks parsed) (info ?st) (info_order ord)
              \<lparr>buf = buf ?enc0 @ lrecs, strtab = t1\<rparr>) = ?enc2"
    by (simp add: emit_mapping_def emit_samples_def)
  obtain t2 where
    fl: "fold function_frame (scanned parsed (funcs_order ord)) ([], ?enc2) =
          (functions_of parsed ord,
           \<lparr>buf = buf ?enc2 @ map (function_record t2) (enumerate 0 ?ff), strtab = t2\<rparr>)"
    and e2: "extends t1 t2" and d2: "dense_strtab t2"
    and k2: "fst ` set t2 = fst ` set t1 \<union> (Fn ` set ?ff \<union> File ` set ?ff)"
    using function_loop [of "scanned parsed (funcs_order ord)" "[]" ?enc2] d1
    by (auto simp: function_firsts_def functions_of_def)
  have fn: "emit_functions (map snd (range_map (Stacks parsed) (funcs_order ord))) ([], ?enc2) =
          (functions_of parsed ord,
           \<lparr>buf = buf ?enc2 @ map (function_record t2) (enumerate 0 ?ff), strtab = t2\<rparr>)"
    using fl by (simp add: emit_functions_def fold_fold_concat scanned_def)
  let ?enc3 = "\<lparr>buf = buf ?enc2 @ map (function_record t2) (enumerate 0 ?ff), strtab = t2\<rparr>"
  have loc: "emit_locations (functions_of parsed ord)
          (map snd (range_map (Stacks parsed) (locs_order ord))) ({}, ?enc3) =
        ({} \<union> PC ` set (scanned parsed (locs_order ord)),
         ?enc3\<lparr>buf := buf ?enc3 @
          map (location_record (functions_of parsed ord)) (location_firsts parsed ord)\<rparr>)"
    unfolding emit_locations_def fold_fold_concat location_firsts_def scanned_def
    by (rule location_loop)
  have e02: "extends ?t0 t2"
    using e1 e2 by (rule extends_trans)
  have time: "Get ''time'' t2 = (0, t2)" and ns: "Get ''ns'' t2 = (1, t2)"
    using extends_lookup [OF e02] by (simp_all add: Get_hit)
  let ?t3 = "snd (Get ''nanoseconds'' t2)"
  have e3: "extends t2 ?t3" by (rule extends_Get)
  have tick: "fst (Get ''nanoseconds'' t2) = sid ?t3 ''nanoseconds''"
    using sid_Get [OF extends_refl] by simp
  have recs: "map (function_record ?t3) (enumerate 0 ?ff) = map (function_record t2) (enumerate 0 ?ff)"
  proof (rule map_cong [OF refl])
    fix x assume "x \<in> set (enumerate 0 ?ff)"
    then have "snd x \<in> set ?ff"
      by (rule enumerate_snd)
    then have "Fn (snd x) \<in> fst ` set t2" "File (snd x) \<in> fst ` set t2"
      using k2 by auto
    from function_record_extends [OF e3 this, of "fst x"]
    show "function_record ?t3 x = function_record t2 x" by simp
  qed
  have k3: "fst ` set ?t3 = insert ''nanoseconds'' (fst ` set t2)"
    using keys_Get [of "''nanoseconds''" t2] by simp
  let ?enc = "\<lparr>buf =
       [Embedded 1 [Int64 1 0, Int64 2 1]] @ lrecs @ ?samples @
       [Embedded 3 [Uint64 1 1]] @
       map (function_record ?t3) (enumerate 0 ?ff) @
       map (location_record (functions_of parsed ord)) (location_firsts parsed ord) @
       [Int64 9 (UnixNano start), Int64 10 (Sub stop start),
        Embedded 11 [Int64 1 0, Int64 2 1], Int64 12 1,
        Int64 15 (sid ?t3 ''nanoseconds'')], strtab = ?t3\<rparr>"
  have run: "encode_sections parsed start stop ord = Inr ?enc"
    unfolding encode_sections_def Let_def vt ls sum.case sm fn prod.case loc
    by (simp add: emit_period_type_def emit_tick_unit_def time ns tick recs split_beta)
  have d3: "dense_strtab ?t3"
    using d2 by (rule dense_strtab_Get)
  have e03: "extends ?t0 ?t3"
    using e02 e3 by (rule extends_trans)
  have keys: "fst ` set ?t3 =
       {''time'', ''ns'', ''nanoseconds''} \<union>
       \<Union> (set ` Labels ` set (snd (registry ?st))) \<union> Fn ` set ?ff \<union> File ` set ?ff"
    unfolding k3 k2 k1 by auto
  show thesis
  proof (rule that [of ?enc lrecs])
    show "buf ?enc = sections parsed start stop ord lrecs (strtab ?enc)"
      by (simp add: sections_def)
  qed (use run lf d3 e03 keys le in simp_all)
qed

section \<open>Section order\<close>

lemma field_number_sample: "field_number (sample_record stacks entry) = 2"
  by (cases entry) (simp add: sample_record_def)

lemma field_number_function: "field_number (function_record t e) = 5"
  by (cases e) (simp add: function_record_def)

lemma field_number_location: "field_number (location_record fns frame) = 4"
  by (simp add: location_record_def)

lemma field_number_writeString: "field_number (writeString s) = 6"
  by (simp add: writeString_def)

lemma field_numbers_string_table:
  "map field_number (string_table t order) = replicate (Suc (length (range_map (map_of t) order))) 6"
  by (simp add: string_table_def split_beta field_number_writeString comp_def map_replicate_const)

lemma field_numbers_sections:
  assumes "map field_number lrecs = replicate n 16"
  shows "map field_number (sections parsed start stop ord lrecs t) =
       [1] @ replicate n 16 @
       replicate (length (range_map (info (aggregate (Events parsed))) (info_order ord))) 2 @
       [3] @
       replicate (length (function_firsts parsed ord)) 5 @
       replicate (length (location_firsts parsed ord)) 4 @
       [9, 10, 11, 12, 15]"
  using assms
  by (simp add: sections_def comp_def field_number_sample field_number_function
      field_number_location map_replicate_const)

lemma artifact:
  obtains lrecs enc where
    "encode_sections parsed start stop ord = Inr enc"
    "ToPprof_bytes parsed start stop ord =
       Inr (sections parsed start stop ord lrecs (strtab enc) @
            string_table (strtab enc) (strtab_order ord))"
    "map field_number lrecs = replicate (length (snd (registry (aggregate (Events parsed))))) 16"
    "dense_strtab (strtab enc)"
    "extends [(''time'', 0), (''ns'', 1)] (strtab enc)"
    "fst ` set (strtab enc) =
       {''time'', ''ns'', ''nanoseconds''} \<union>
       \<Union> (set ` Labels ` set (snd (registry (aggregate (Events parsed))))) \<union>
       Fn ` set (function_firsts parsed ord) \<union> File ` set (function_firsts parsed ord)"
    "\<forall>r\<in>set lrecs. \<exists>fs. r = Embedded 16 fs"
proof (rule encode_sections_shape [of parsed start stop ord])
  fix lrecs enc
  assume enc: "encode_sections parsed start stop ord = Inr enc"
    and b: "buf enc = sections parsed start stop ord lrecs (strtab enc)"
    and rest: "map field_number lrecs = replicate (length (snd (registry (aggregate (Events parsed))))) 16"
    "dense_strtab (strtab enc)"
    "extends [(''time'', 0), (''ns'', 1)] (strtab enc)"
    "fst ` set (strtab enc) =
       {''time'', ''ns'', ''nanoseconds''} \<union>
       \<Union> (set ` Labels ` set (snd (registry (aggregate (Events parsed))))) \<union>
       Fn ` set (function_firsts parsed ord) \<union> File ` set (function_firsts parsed ord)"
    "\<forall>r\<in>set lrecs. \<exists>fs. r = Embedded 16 fs"
  have bytes: "ToPprof_bytes parsed start stop ord =
       Inr (sections parsed start stop ord lrecs (strtab enc) @
            string_table (strtab enc) (strtab_order ord))"
    by (simp add: ToPprof_bytes_def enc b)
  from enc bytes rest show thesis by (rule that)
qed

text \<open>The order of the stream calls and of the hand-written entries.\<close>

lemma stream_call_order:
  "\<exists>b enc.
     ToPprof_bytes parsed start stop ord = Inr b \<and>
     encode_sections parsed start stop ord = Inr enc \<and>
     map field_number b =
       [1] @
       replicate (length (snd (registry (aggregate (Events parsed))))) 16 @
       replicate (length (range_map (info (aggregate (Events parsed))) (info_order ord))) 2 @
       [3] @
       replicate (length (function_firsts parsed ord)) 5 @
       replicate (length (location_firsts parsed ord)) 4 @
       [9, 10, 11, 12, 15] @
       replicate (Suc (length (range_map (map_of (strtab enc)) (strtab_order ord)))) 6"
proof (rule artifact [of parsed start stop ord])
  fix lrecs enc
  assume enc: "encode_sections parsed start stop ord = Inr enc"
    and b: "ToPprof_bytes parsed start stop ord =
       Inr (sections parsed start stop ord lrecs (strtab enc) @
            string_table (strtab enc) (strtab_order ord))"
    and l: "map field_number lrecs = replicate (length (snd (registry (aggregate (Events parsed))))) 16"
  show ?thesis
    unfolding b
    by (intro exI conjI, rule refl, rule enc)
       (simp add: field_numbers_sections [OF l] field_numbers_string_table)
qed

text \<open>The records the stream writes for these calls.\<close>

lemma written_Nil: "written [] = []"
  by (simp add: written_def)

lemma written_Cons: "written (r # rs) = write_field r @ written rs"
  by (simp add: written_def)

lemma written_append: "written (rs @ rs') = written rs @ written rs'"
  by (simp add: written_def)

lemma field_number_write_field: "r' \<in> set (write_field r) \<Longrightarrow> field_number r' = field_number r"
  by (cases r) (auto split: if_splits)

lemma field_numbers_written_embedded:
  "\<forall>r\<in>set rs. \<exists>n fs. r = Embedded n fs \<Longrightarrow>
   map field_number (written rs) = map field_number rs"
  by (induction rs) (auto simp: written_Nil written_Cons)

lemma field_numbers_written_string_table:
  "map field_number (written (string_table t order)) = map field_number (string_table t order)"
  by (simp add: string_table_def writeString_def written_def comp_def split_def)

lemma field_numbers_written_sections:
  assumes "map field_number lrecs = replicate n 16"
    and "\<forall>r\<in>set lrecs. \<exists>fs. r = Embedded 16 fs"
  shows "map field_number (written (sections parsed start stop ord lrecs t)) =
       [1] @ replicate n 16 @
       replicate (length (range_map (info (aggregate (Events parsed))) (info_order ord))) 2 @
       [3] @
       replicate (length (function_firsts parsed ord)) 5 @
       replicate (length (location_firsts parsed ord)) 4 @
       (if UnixNano start = 0 then [] else [9]) @
       (if Sub stop start = 0 then [] else [10]) @
       [11, 12] @
       (if sid t ''nanoseconds'' = 0 then [] else [15])"
proof -
  have "\<forall>r\<in>set lrecs. \<exists>m fs. r = Embedded m fs"
    using assms(2) by blast
  then have l: "map field_number (written lrecs) = replicate n 16"
    using assms(1) by (simp add: field_numbers_written_embedded)
  have s: "map field_number (written (map (sample_record stacks) xs)) = replicate (length xs) 2"
    for stacks xs
    by (induction xs) (auto simp: written_Nil written_Cons sample_record_def split_def)
  have f: "map field_number (written (map (function_record t) xs)) = replicate (length xs) 5"
    for xs
    by (induction xs) (auto simp: written_Nil written_Cons function_record_def split_def)
  have c: "map field_number (written (map (location_record fns) xs)) = replicate (length xs) 4"
    for fns xs
    by (induction xs) (auto simp: written_Nil written_Cons location_record_def)
  show ?thesis
    unfolding sections_def written_append map_append l s f c
    by (simp add: written_Cons written_Nil)
qed

lemma section_ranks:
  "section_rank 1 = 0" "section_rank 16 = 1" "section_rank 2 = 2" "section_rank 3 = 3"
  "section_rank 5 = 4" "section_rank 4 = 5" "section_rank 9 = 6" "section_rank 10 = 7"
  "section_rank 11 = 8" "section_rank 12 = 9" "section_rank 15 = 10" "section_rank 6 = 11"
  "section_rank (Suc 0) = 0"
  by (simp_all add: section_rank_def)

lemma sorted_section_numbers:
  "sorted (map section_rank
     ([1] @ replicate nl 16 @ replicate ns 2 @ [3] @ replicate nf 5 @ replicate nc 4 @
      (if a then [] else [9]) @ (if b then [] else [10]) @ [11, 12] @
      (if c then [] else [15]) @ replicate k 6))"
  by (auto simp: section_ranks sorted_append)

text \<open>
  C7. For every input the top-level records of the artifact stand in the order of the
  sections and carry these field numbers: value type 1, label sets 16, samples 2,
  mapping 3, functions 5, locations 4, time 9, duration 10, period type 11, period 12,
  tick unit 15, string table 6. The value type, the mapping, the period type, the
  period and the forced first entry of the string table are there for every input, the
  label sets, samples, functions and locations once for each such record. The stream
  writes no record for a scalar 0: the time record is there unless the start is the
  epoch, the duration record unless the duration is 0, the tick unit unless the 64-bit
  identifier of its string is 0.
\<close>

theorem section_order:
  "\<exists>b enc.
     ToPprof_bytes parsed start stop ord = Inr b \<and>
     encode_sections parsed start stop ord = Inr enc \<and>
     map field_number (written b) =
       [1] @
       replicate (length (snd (registry (aggregate (Events parsed))))) 16 @
       replicate (length (range_map (info (aggregate (Events parsed))) (info_order ord))) 2 @
       [3] @
       replicate (length (function_firsts parsed ord)) 5 @
       replicate (length (location_firsts parsed ord)) 4 @
       (if UnixNano start = 0 then [] else [9]) @
       (if Sub stop start = 0 then [] else [10]) @
       [11, 12] @
       (if sid (strtab enc) ''nanoseconds'' = 0 then [] else [15]) @
       replicate (Suc (length (range_map (map_of (strtab enc)) (strtab_order ord)))) 6 \<and>
     sorted (map section_rank (map field_number (written b)))"
proof (rule artifact [of parsed start stop ord])
  fix lrecs enc
  assume enc: "encode_sections parsed start stop ord = Inr enc"
    and b: "ToPprof_bytes parsed start stop ord =
       Inr (sections parsed start stop ord lrecs (strtab enc) @
            string_table (strtab enc) (strtab_order ord))"
    and l: "map field_number lrecs = replicate (length (snd (registry (aggregate (Events parsed))))) 16"
    and e: "\<forall>r\<in>set lrecs. \<exists>fs. r = Embedded 16 fs"
  let ?b = "sections parsed start stop ord lrecs (strtab enc) @
            string_table (strtab enc) (strtab_order ord)"
  have n: "map field_number (written ?b) =
       [1] @
       replicate (length (snd (registry (aggregate (Events parsed))))) 16 @
       replicate (length (range_map (info (aggregate (Events parsed))) (info_order ord))) 2 @
       [3] @
       replicate (length (function_firsts parsed ord)) 5 @
       replicate (length (location_firsts parsed ord)) 4 @
       (if UnixNano start = 0 then [] else [9]) @
       (if Sub stop start = 0 then [] else [10]) @
       [11, 12] @
       (if sid (strtab enc) ''nanoseconds'' = 0 then [] else [15]) @
       replicate (Suc (length (range_map (map_of (strtab enc)) (strtab_order ord)))) 6"
    unfolding written_append map_append field_numbers_written_sections [OF l e]
      field_numbers_written_string_table field_numbers_string_table
    by simp
  have srt: "sorted (map section_rank (map field_number (written ?b)))"
    unfolding n by (rule sorted_section_numbers)
  show ?thesis
    by (intro exI [of _ ?b] exI [of _ enc] conjI) (fact b enc n srt)+
qed

text \<open>With the start at the epoch and no duration, on the empty input, the records 9
  and 10 are not in the artifact.\<close>

lemma section_order_epoch:
  "map (map field_number \<circ> written)
     [projr (ToPprof_bytes \<lparr>Events = [], Stacks = Map.empty\<rparr> 0 0
        \<lparr>info_order = [], funcs_order = [], locs_order = [],
         strtab_order = [''time'', ''ns'', ''nanoseconds'']\<rparr>)] =
   [[1, 3, 11, 12, 15, 6, 6, 6, 6]]"
  by code_simp

section \<open>Samples and their locations\<close>

lemma range_map_Nil: "range_map m [] = []"
  by (simp add: range_map_def)

lemma range_map_Cons:
  "range_map m (k # ks) =
     (case m k of None \<Rightarrow> range_map m ks | Some v \<Rightarrow> (k, v) # range_map m ks)"
  by (simp add: range_map_def split: option.splits)

lemma range_map_set:
  "set (range_map m order) = {(k, v). k \<in> set order \<and> m k = Some v}"
  by (induction order) (auto simp: range_map_Nil range_map_Cons split: option.splits)

lemma set_sections:
  "set (sections parsed start stop ord lrecs t) =
     {Embedded 1 [Int64 1 0, Int64 2 1]} \<union> set lrecs \<union>
     sample_record (Stacks parsed) `
       set (range_map (info (aggregate (Events parsed))) (info_order ord)) \<union>
     {Embedded 3 [Uint64 1 1]} \<union>
     function_record t ` set (enumerate 0 (function_firsts parsed ord)) \<union>
     location_record (functions_of parsed ord) ` set (location_firsts parsed ord) \<union>
     {Int64 9 (UnixNano start), Int64 10 (Sub stop start),
      Embedded 11 [Int64 1 0, Int64 2 1], Int64 12 1, Int64 15 (sid t ''nanoseconds'')}"
  by (auto simp: sections_def)

lemma ToPprof_eq:
  "ToPprof_bytes parsed start stop ord = Inr b \<Longrightarrow>
   ToPprof parsed start stop out ord =
     (case out b of Some err \<Rightarrow> Inl (WriteError err) | None \<Rightarrow> Inr b)"
  by (simp add: ToPprof_def)

text \<open>
  C8. A CPU-sample event whose stack identifier is not a key of \<open>Stacks\<close> does not make
  the encoder fail: the bytes are built (no panic), \<open>ToPprof\<close> fails only if the sink's
  write does, the event's aggregate exists, and its Sample record is written with no
  location identifier, only the value and the breakdown.
\<close>

theorem missing_stack_sample:
  assumes "e \<in> set (Events parsed)" and "Type e = EvCPUSample"
    and "Stacks parsed (StkID e) = None"
    and "range_order (info (aggregate (Events parsed))) (info_order ord)"
  shows "\<exists>b pp.
     ToPprof_bytes parsed start stop ord = Inr b \<and>
     ToPprof parsed start stop out ord =
       (case out b of Some err \<Rightarrow> Inl (WriteError err) | None \<Rightarrow> Inr b) \<and>
     info (aggregate (Events parsed)) (StkID e) = Some pp \<and>
     Embedded 2
       [Int64 2 (Value pp),
        Embedded 4
          [Int64Packed 1 (Timestamps (Breakdown pp)),
           Int64Packed 2 (Values (Breakdown pp)),
           Int64Packed 3 (LabelSets (Breakdown pp))]] \<in> set b"
proof (rule artifact [of parsed start stop ord])
  fix lrecs enc
  assume b: "ToPprof_bytes parsed start stop ord =
       Inr (sections parsed start stop ord lrecs (strtab enc) @
            string_table (strtab enc) (strtab_order ord))"
  obtain pp where pp: "info (aggregate (Events parsed)) (StkID e) = Some pp"
    using aggregate_has_sample [OF assms(1,2)] by blast
  then have "StkID e \<in> set (info_order ord)"
    using assms(4) by (auto simp: range_order_def)
  with pp have "(StkID e, pp) \<in> set (range_map (info (aggregate (Events parsed))) (info_order ord))"
    by (simp add: range_map_set)
  then have "sample_record (Stacks parsed) (StkID e, pp) \<in>
      set (sections parsed start stop ord lrecs (strtab enc))"
    unfolding set_sections by blast
  moreover have "sample_record (Stacks parsed) (StkID e, pp) =
      Embedded 2
       [Int64 2 (Value pp),
        Embedded 4
          [Int64Packed 1 (Timestamps (Breakdown pp)),
           Int64Packed 2 (Values (Breakdown pp)),
           Int64Packed 3 (LabelSets (Breakdown pp))]]"
    using assms(3) by (simp add: sample_record_def stack_at_def)
  ultimately show ?thesis
    using pp ToPprof_eq [OF b, of out] unfolding b
    by (intro exI [of _ "sections parsed start stop ord lrecs (strtab enc) @
            string_table (strtab enc) (strtab_order ord)"] exI [of _ pp]) simp
qed

theorem missing_stack_sample_witness:
  "\<lparr>Type = EvCPUSample, G = 7, Ts = 10, StkID = 3\<rparr> \<in>
     set (Events \<lparr>Events = [\<lparr>Type = EvCPUSample, G = 7, Ts = 10, StkID = 3\<rparr>],
                  Stacks = Map.empty\<rparr>) \<and>
   Stacks \<lparr>Events = [\<lparr>Type = EvCPUSample, G = 7, Ts = 10, StkID = 3\<rparr>],
           Stacks = Map.empty\<rparr> 3 = None \<and>
   range_order (info (aggregate [\<lparr>Type = EvCPUSample, G = 7, Ts = 10, StkID = 3\<rparr>])) [3] \<and>
   (\<exists>b. ToPprof \<lparr>Events = [\<lparr>Type = EvCPUSample, G = 7, Ts = 10, StkID = 3\<rparr>],
                    Stacks = Map.empty\<rparr> 0 0 (\<lambda>b. None)
            \<lparr>info_order = [3], funcs_order = [], locs_order = [], strtab_order = []\<rparr> = Inr b \<and>
        Embedded 2
          [Int64 2 1,
           Embedded 4 [Int64Packed 1 [10], Int64Packed 2 [1], Int64Packed 3 [0]]] \<in> set b)"
proof -
  let ?e = "\<lparr>Type = EvCPUSample, G = 7, Ts = 10, StkID = 3\<rparr>"
  let ?p = "\<lparr>Events = [?e], Stacks = Map.empty\<rparr>"
  let ?o = "\<lparr>info_order = [3], funcs_order = [], locs_order = [], strtab_order = []\<rparr>"
  have h1: "?e \<in> set (Events ?p)" by simp
  have h2: "Type ?e = EvCPUSample" by simp
  have h3: "Stacks ?p (StkID ?e) = None" by simp
  have i: "info (aggregate [?e]) =
      [3 \<mapsto> \<lparr>Value = 1, Breakdown = \<lparr>Timestamps = [10], Values = [1], LabelSets = [0]\<rparr>\<rparr>]"
    by (simp add: aggregate_def aggregate_event_def init_agg_def new_PprofInfo_def
        resolve_labelset_def Let_def)
  have h4: "range_order (info (aggregate (Events ?p))) (info_order ?o)"
    by (simp add: i range_order_def)
  from missing_stack_sample [OF h1 h2 h3 h4, of 0 0 "\<lambda>b. None"] h1 h3 h4 i
  show ?thesis by auto
qed

lemma location_id_field: "location_id r = Some pc \<Longrightarrow> field_number r = 4"
  by (induction r rule: location_id.induct) (simp_all split: if_splits)

lemma location_id_record: "location_id (location_record fns frame) = Some (PC frame)"
  by (simp add: location_record_def)

lemma no_location_by_field:
  "\<forall>r\<in>set rs. field_number r \<noteq> 4 \<Longrightarrow> filter (\<lambda>r. location_id r = Some pc) rs = []"
  by (auto simp: filter_empty_conv dest: location_id_field)

lemma count_distinct_key:
  "distinct (map f xs) \<Longrightarrow> y \<in> f ` set xs \<Longrightarrow> length (filter (\<lambda>x. f x = y) xs) = 1"
proof (induction xs)
  case Nil
  then show ?case by simp
next
  case (Cons x xs)
  show ?case
  proof (cases "f x = y")
    case True
    then have "filter (\<lambda>x. f x = y) xs = []"
      using Cons.prems(1) by (auto simp: filter_empty_conv image_iff)
    with True show ?thesis by simp
  next
    case False
    then show ?thesis using Cons by auto
  qed
qed

lemma field_numbers_replicate:
  "map field_number rs = replicate n c \<Longrightarrow> r \<in> set rs \<Longrightarrow> field_number r = c"
  by (metis imageI in_set_replicate set_map)

lemma location_records_of_sections:
  assumes "map field_number lrecs = replicate n 16"
  shows "filter (\<lambda>r. location_id r = Some pc)
           (sections parsed start stop ord lrecs t @ string_table t order) =
         map (location_record (functions_of parsed ord))
           (filter (\<lambda>frame. PC frame = pc) (location_firsts parsed ord))"
proof -
  have l: "filter (\<lambda>r. location_id r = Some pc) lrecs = []"
    by (rule no_location_by_field) (use field_numbers_replicate [OF assms] in auto)
  have s: "filter (\<lambda>r. location_id r = Some pc) (map (sample_record stacks) xs) = []" for stacks xs
    by (rule no_location_by_field) (auto simp: field_number_sample)
  have f: "filter (\<lambda>r. location_id r = Some pc) (map (function_record t) xs) = []" for xs
    by (rule no_location_by_field) (auto simp: field_number_function)
  have w: "filter (\<lambda>r. location_id r = Some pc) (string_table t order) = []"
    by (rule no_location_by_field)
       (use field_numbers_replicate [OF field_numbers_string_table] in auto)
  have c: "filter (\<lambda>r. location_id r = Some pc) (map (location_record fns) xs) =
      map (location_record fns) (filter (\<lambda>frame. PC frame = pc) xs)" for fns xs
    by (simp add: filter_map comp_def location_id_record)
  show ?thesis
    by (simp add: sections_def l s f w c)
qed

lemma scanned_frames:
  assumes "k \<in> set order" and "Stacks parsed k = Some stk"
  shows "set stk \<subseteq> set (scanned parsed order)"
proof -
  have "(k, stk) \<in> set (range_map (Stacks parsed) order)"
    using assms by (simp add: range_map_set)
  then show ?thesis
    by (force simp: scanned_def)
qed

lemma sample_fields:
  assumes "Uint64 1 pc \<in> set fs" and "Embedded 2 fs = sample_record stacks (k, pp)"
  shows "\<exists>stk. stacks k = Some stk \<and> pc \<in> PC ` set stk"
  using assms by (auto simp: sample_record_def stack_at_def split: option.splits)

text \<open>
  C10. For every input whose Location loop visits every stack (as a \<open>range\<close> does), every
  location identifier inside a Sample record of the artifact is the identifier of exactly
  one Location record of the artifact.
\<close>

theorem no_dangling_location:
  assumes "range_order (Stacks parsed) (locs_order ord)"
    and "ToPprof_bytes parsed start stop ord = Inr b"
    and "Embedded 2 fs \<in> set b" and "Uint64 1 pc \<in> set fs"
  shows "length (filter (\<lambda>r. location_id r = Some pc) b) = 1"
proof (rule artifact [of parsed start stop ord])
  fix lrecs enc
  assume "ToPprof_bytes parsed start stop ord =
       Inr (sections parsed start stop ord lrecs (strtab enc) @
            string_table (strtab enc) (strtab_order ord))"
    and l: "map field_number lrecs = replicate (length (snd (registry (aggregate (Events parsed))))) 16"
  then have b: "b = sections parsed start stop ord lrecs (strtab enc) @
            string_table (strtab enc) (strtab_order ord)"
    using assms(2) by simp
  let ?P = "\<lambda>r. field_number r = 2"
  have "field_number (Embedded 2 fs) = 2" by simp
  have "Embedded 2 fs \<in> sample_record (Stacks parsed) `
       set (range_map (info (aggregate (Events parsed))) (info_order ord))"
  proof -
    have "Embedded 2 fs \<notin> set lrecs"
      using field_numbers_replicate [OF l, of "Embedded 2 fs"] by auto
    moreover have "Embedded 2 fs \<notin> set (string_table (strtab enc) (strtab_order ord))"
      using field_numbers_replicate [OF field_numbers_string_table, of "Embedded 2 fs"] by auto
    moreover have "Embedded 2 fs \<notin> function_record t ` X" for t X
      using field_number_function [of t] by (metis field_number.simps(4) imageE numeral_eq_iff semiring_norm(89))
    moreover have "Embedded 2 fs \<notin> location_record fns ` X" for fns X
      by (auto simp: location_record_def)
    ultimately show ?thesis
      using assms(3) unfolding b set_append set_sections by auto
  qed
  then obtain k pp where "Embedded 2 fs = sample_record (Stacks parsed) (k, pp)"
    by auto
  from sample_fields [OF assms(4) this]
  obtain stk where stk: "Stacks parsed k = Some stk" "pc \<in> PC ` set stk"
    by blast
  then have "k \<in> set (locs_order ord)"
    using assms(1) by (auto simp: range_order_def)
  from scanned_frames [OF this stk(1)] stk(2)
  have "pc \<in> PC ` set (scanned parsed (locs_order ord))"
    by auto
  then have "pc \<in> PC ` set (location_firsts parsed ord)"
    by (simp add: location_firsts_def first_by_keys)
  moreover have "distinct (map PC (location_firsts parsed ord))"
    by (simp add: location_firsts_def first_by_distinct)
  ultimately have "length (filter (\<lambda>frame. PC frame = pc) (location_firsts parsed ord)) = 1"
    by (intro count_distinct_key)
  then show ?thesis
    unfolding b location_records_of_sections [OF l] by simp
qed

theorem no_dangling_location_witness:
  "range_order
     (Stacks \<lparr>Events = [\<lparr>Type = EvCPUSample, G = 7, Ts = 10, StkID = 3\<rparr>],
      Stacks = [3 \<mapsto> [\<lparr>PC = 100, Fn = ''f'', File = ''a.go'', Line = 5\<rparr>]]\<rparr>)
     (locs_order \<lparr>info_order = [3], funcs_order = [3], locs_order = [3],
      strtab_order = [''time'', ''ns'', ''thread_id:'', ''7'', ''f'', ''a.go'', ''nanoseconds'']\<rparr>) \<and>
   ToPprof_bytes
     \<lparr>Events = [\<lparr>Type = EvCPUSample, G = 7, Ts = 10, StkID = 3\<rparr>],
      Stacks = [3 \<mapsto> [\<lparr>PC = 100, Fn = ''f'', File = ''a.go'', Line = 5\<rparr>]]\<rparr> 0 0
     \<lparr>info_order = [3], funcs_order = [3], locs_order = [3],
      strtab_order = [''time'', ''ns'', ''thread_id:'', ''7'', ''f'', ''a.go'', ''nanoseconds'']\<rparr> =
   Inr [Embedded 1 [Int64 1 0, Int64 2 1],
      Embedded 16 [Uint64 1 0, Embedded 2 [Int64 1 2, Int64 2 3]],
      Embedded 2 [Uint64 1 100, Int64 2 1,
        Embedded 4 [Int64Packed 1 [10], Int64Packed 2 [1], Int64Packed 3 [0]]],
      Embedded 3 [Uint64 1 1],
      Embedded 5 [Uint64 1 1, Int64 2 4, Int64 4 5],
      Embedded 4 [Uint64 1 100, Uint64 2 1, Uint64 3 100, Embedded 4 [Uint64 1 1, Int64 2 5]],
      Int64 9 0, Int64 10 0, Embedded 11 [Int64 1 0, Int64 2 1], Int64 12 1, Int64 15 6,
      Tagged 50 [], Tagged 50 ''time'', Tagged 50 ''ns'', Tagged 50 ''thread_id:'',
      Tagged 50 ''7'', Tagged 50 ''f'', Tagged 50 ''a.go'', Tagged 50 ''nanoseconds''] \<and>
   length (filter (\<lambda>r. location_id r = Some 100)
     [Embedded 1 [Int64 1 0, Int64 2 1],
      Embedded 16 [Uint64 1 0, Embedded 2 [Int64 1 2, Int64 2 3]],
      Embedded 2 [Uint64 1 100, Int64 2 1,
        Embedded 4 [Int64Packed 1 [10], Int64Packed 2 [1], Int64Packed 3 [0]]],
      Embedded 3 [Uint64 1 1],
      Embedded 5 [Uint64 1 1, Int64 2 4, Int64 4 5],
      Embedded 4 [Uint64 1 100, Uint64 2 1, Uint64 3 100, Embedded 4 [Uint64 1 1, Int64 2 5]],
      Int64 9 0, Int64 10 0, Embedded 11 [Int64 1 0, Int64 2 1], Int64 12 1, Int64 15 6,
      Tagged 50 [], Tagged 50 ''time'', Tagged 50 ''ns'', Tagged 50 ''thread_id:'',
      Tagged 50 ''7'', Tagged 50 ''f'', Tagged 50 ''a.go'', Tagged 50 ''nanoseconds'']) = 1"
proof -
  let ?p = "\<lparr>Events = [\<lparr>Type = EvCPUSample, G = 7, Ts = 10, StkID = 3\<rparr>],
      Stacks = [3 \<mapsto> [\<lparr>PC = 100, Fn = ''f'', File = ''a.go'', Line = 5\<rparr>]]\<rparr>"
  let ?o = "\<lparr>info_order = [3], funcs_order = [3], locs_order = [3],
      strtab_order = [''time'', ''ns'', ''thread_id:'', ''7'', ''f'', ''a.go'', ''nanoseconds'']\<rparr>"
  let ?fs = "[Uint64 1 100, Int64 2 1,
        Embedded 4 [Int64Packed 1 [10], Int64Packed 2 [1], Int64Packed 3 [0]]]"
  let ?b = "[Embedded 1 [Int64 1 0, Int64 2 1],
      Embedded 16 [Uint64 1 0, Embedded 2 [Int64 1 2, Int64 2 3]],
      Embedded 2 [Uint64 1 100, Int64 2 1,
        Embedded 4 [Int64Packed 1 [10], Int64Packed 2 [1], Int64Packed 3 [0]]],
      Embedded 3 [Uint64 1 1],
      Embedded 5 [Uint64 1 1, Int64 2 4, Int64 4 5],
      Embedded 4 [Uint64 1 100, Uint64 2 1, Uint64 3 100, Embedded 4 [Uint64 1 1, Int64 2 5]],
      Int64 9 0, Int64 10 0, Embedded 11 [Int64 1 0, Int64 2 1], Int64 12 1, Int64 15 6,
      Tagged 50 [], Tagged 50 ''time'', Tagged 50 ''ns'', Tagged 50 ''thread_id:'',
      Tagged 50 ''7'', Tagged 50 ''f'', Tagged 50 ''a.go'', Tagged 50 ''nanoseconds'']"
  have h1: "range_order (Stacks ?p) (locs_order ?o)"
    by (simp add: range_order_def)
  have h2: "ToPprof_bytes ?p 0 0 ?o = Inr ?b"
    by code_simp
  have h3: "Embedded 2 ?fs \<in> set ?b" by simp
  have h4: "Uint64 1 100 \<in> set ?fs" by simp
  from no_dangling_location [OF h1 h2 h3 h4] h1 h2 show ?thesis by blast
qed

section \<open>The string table of the artifact\<close>

lemma table_strings_append: "table_strings (rs @ rs') = table_strings rs @ table_strings rs'"
  by (induction rs rule: table_strings.induct) simp_all

lemma table_strings_none:
  "\<forall>r\<in>set rs. field_number r \<noteq> 6 \<Longrightarrow> table_strings rs = []"
  by (induction rs rule: table_strings.induct) simp_all

lemma table_strings_writeString:
  "table_strings (map (\<lambda>e. writeString (fst e)) es) = map fst es"
  by (induction es) (simp_all add: writeString_def)

lemma range_map_keys:
  "\<forall>k\<in>set order. m k \<noteq> None \<Longrightarrow> map fst (range_map m order) = order"
  by (induction order) (auto simp: range_map_Nil range_map_Cons)

lemma table_strings_string_table:
  "table_strings (string_table t order) = [] # map fst (range_map (map_of t) order)"
  using table_strings_writeString [of "range_map (map_of t) order"]
  by (simp add: string_table_def split_def writeString_def)

lemma table_strings_sections:
  assumes "map field_number lrecs = replicate n 16"
  shows "table_strings (sections parsed start stop ord lrecs t) = []"
proof (rule table_strings_none)
  have "set (map field_number (sections parsed start stop ord lrecs t)) \<subseteq>
      {1, 16, 2, 3, 5, 4, 9, 10, 11, 12, 15}"
    unfolding field_numbers_sections [OF assms] by auto
  then show "\<forall>r\<in>set (sections parsed start stop ord lrecs t). field_number r \<noteq> 6"
    by fastforce
qed

text \<open>
  For every input and every order in which the runtime walks the string table, the
  table is the tail of the artifact: the forced empty entry, then every interned string
  once, in the order of the walk.
\<close>

lemma string_table_last:
  assumes "encode_sections parsed start stop ord = Inr enc"
    and "ToPprof_bytes parsed start stop ord = Inr b"
    and "range_order (map_of (strtab enc)) (strtab_order ord)"
  shows "table_strings b = [] # strtab_order ord"
    and "drop (length b - Suc (length (strtab_order ord))) b =
           map writeString ([] # strtab_order ord)"
    and "distinct (strtab_order ord)"
    and "set (strtab_order ord) = fst ` set (strtab enc)"
proof -
  have keys: "map fst (range_map (map_of (strtab enc)) (strtab_order ord)) = strtab_order ord"
    using assms(3) by (intro range_map_keys) (auto simp: range_order_def)
  have st: "string_table (strtab enc) (strtab_order ord) = map writeString ([] # strtab_order ord)"
  proof -
    have "map (\<lambda>p. writeString (fst p)) (range_map (map_of (strtab enc)) (strtab_order ord)) =
        map writeString (map fst (range_map (map_of (strtab enc)) (strtab_order ord)))"
      by (simp add: comp_def)
    then show ?thesis
      by (simp add: string_table_def split_def keys)
  qed
  show "distinct (strtab_order ord)" "set (strtab_order ord) = fst ` set (strtab enc)"
    using assms(3) by (simp_all add: range_order_def dom_map_of_conv_image_fst)
  show "table_strings b = [] # strtab_order ord"
    and "drop (length b - Suc (length (strtab_order ord))) b =
           map writeString ([] # strtab_order ord)"
  proof (atomize (full), rule artifact [of parsed start stop ord], goal_cases)
    case (1 lrecs enc')
    then have b: "b = sections parsed start stop ord lrecs (strtab enc) @
            string_table (strtab enc) (strtab_order ord)"
      using assms(1,2) by simp
    show ?case
      unfolding b table_strings_append table_strings_sections [OF 1(3)]
        table_strings_string_table keys
      by (simp add: st)
  qed
qed

lemma filter_field_map:
  assumes "\<And>x. field_number (f x) = n"
  shows "filter (\<lambda>r. field_number r = c) (map f xs) = (if c = n then map f xs else [])"
  by (induction xs) (simp_all add: assms)

lemma filter_field_replicate:
  assumes "map field_number rs = replicate k n"
  shows "filter (\<lambda>r. field_number r = c) rs = (if c = n then rs else [])"
proof -
  have "\<forall>r\<in>set rs. field_number r = n"
    using field_numbers_replicate [OF assms] by blast
  then show ?thesis
    by (induction rs) simp_all
qed

lemma filter_field_sections:
  assumes "map field_number lrecs = replicate k 16"
  shows "filter (\<lambda>r. field_number r = c) (sections parsed start stop ord lrecs t) =
     (if c = 1 then [Embedded 1 [Int64 1 0, Int64 2 1]] else []) @
     (if c = 16 then lrecs else []) @
     (if c = 2 then map (sample_record (Stacks parsed))
        (range_map (info (aggregate (Events parsed))) (info_order ord)) else []) @
     (if c = 3 then [Embedded 3 [Uint64 1 1]] else []) @
     (if c = 5 then map (function_record t) (enumerate 0 (function_firsts parsed ord)) else []) @
     (if c = 4 then map (location_record (functions_of parsed ord)) (location_firsts parsed ord)
      else []) @
     filter (\<lambda>r. field_number r = c)
       [Int64 9 (UnixNano start), Int64 10 (Sub stop start),
        Embedded 11 [Int64 1 0, Int64 2 1], Int64 12 1, Int64 15 (sid t ''nanoseconds'')]"
  unfolding sections_def filter_append
    filter_field_map [of "sample_record (Stacks parsed)", OF field_number_sample]
    filter_field_map [of "function_record t", OF field_number_function]
    filter_field_map [of "location_record (functions_of parsed ord)", OF field_number_location]
    filter_field_replicate [OF assms]
  by simp

lemma filter_field_string_table:
  "c \<noteq> 6 \<Longrightarrow> filter (\<lambda>r. field_number r = c) (string_table t order) = []"
  using filter_field_replicate [OF field_numbers_string_table, of c t order] by simp

section \<open>Inputs without CPU samples\<close>

lemma filter_field_written:
  "filter (\<lambda>r. field_number r = c) (written rs) =
     written (filter (\<lambda>r. field_number r = c) rs)"
proof (induction rs)
  case Nil
  show ?case by (simp add: written_Nil)
next
  case (Cons r rs)
  have "filter (\<lambda>r'. field_number r' = c) (write_field r) =
      (if field_number r = c then write_field r else [])"
    by (cases r) simp_all
  with Cons show ?case
    by (simp add: written_Cons)
qed

lemma table_strings_written: "table_strings (written rs) = table_strings rs"
proof (induction rs)
  case Nil
  show ?case by (simp add: written_Nil)
next
  case (Cons r rs)
  then show ?case
    by (cases r) (simp_all add: written_Cons)
qed

lemma scanned_subset: "set (scanned parsed order) \<subseteq> all_frames parsed"
  by (auto simp: scanned_def all_frames_def range_map_set) blast

lemma scanned_all:
  "range_order (Stacks parsed) order \<Longrightarrow> set (scanned parsed order) = all_frames parsed"
  by (fastforce simp: scanned_def all_frames_def range_map_set range_order_def)

lemma function_firsts_keys:
  "function_key ` set (function_firsts parsed ord) =
     function_key ` set (scanned parsed (funcs_order ord))"
  by (simp add: function_firsts_def first_by_keys)

lemma function_firsts_subset:
  "set (function_firsts parsed ord) \<subseteq> set (scanned parsed (funcs_order ord))"
  by (simp add: function_firsts_def first_by_subset)

text \<open>
  C1, at an input the encoder can receive. With no events and no stacks the table
  holds \<open>time\<close>, \<open>ns\<close> and \<open>nanoseconds\<close> with the identifiers 0, 1 and 2. The runtime
  may walk the map as \<open>ns\<close>, \<open>time\<close>, \<open>nanoseconds\<close>; the artifact then has \<open>ns\<close>
  (identifier 1) at position 1 and \<open>time\<close> (identifier 0) at position 2, not at the
  identifier plus one.
\<close>

theorem string_table_order_failure:
  "encode_sections \<lparr>Events = [], Stacks = Map.empty\<rparr> 0 0
     \<lparr>info_order = [], funcs_order = [], locs_order = [],
      strtab_order = [''ns'', ''time'', ''nanoseconds'']\<rparr> =
   Inr \<lparr>buf =
          [Embedded 1 [Int64 1 0, Int64 2 1], Embedded 3 [Uint64 1 1], Int64 9 0, Int64 10 0,
           Embedded 11 [Int64 1 0, Int64 2 1], Int64 12 1, Int64 15 2],
        strtab = [(''time'', 0), (''ns'', 1), (''nanoseconds'', 2)]\<rparr> \<and>
   range_order (map_of [(''time'', 0 :: int64), (''ns'', 1), (''nanoseconds'', 2)])
     [''ns'', ''time'', ''nanoseconds''] \<and>
   ToPprof_bytes \<lparr>Events = [], Stacks = Map.empty\<rparr> 0 0
     \<lparr>info_order = [], funcs_order = [], locs_order = [],
      strtab_order = [''ns'', ''time'', ''nanoseconds'']\<rparr> =
   Inr [Embedded 1 [Int64 1 0, Int64 2 1], Embedded 3 [Uint64 1 1], Int64 9 0, Int64 10 0,
        Embedded 11 [Int64 1 0, Int64 2 1], Int64 12 1, Int64 15 2,
        Tagged 50 [], Tagged 50 ''ns'', Tagged 50 ''time'', Tagged 50 ''nanoseconds''] \<and>
   table_strings (written
       [Embedded 1 [Int64 1 0, Int64 2 1], Embedded 3 [Uint64 1 1], Int64 9 0, Int64 10 0,
        Embedded 11 [Int64 1 0, Int64 2 1], Int64 12 1, Int64 15 2,
        Tagged 50 [], Tagged 50 ''ns'', Tagged 50 ''time'', Tagged 50 ''nanoseconds'']) =
   [[], ''ns'', ''time'', ''nanoseconds'']"
proof (intro conjI)
  show "range_order (map_of [(''time'', 0 :: int64), (''ns'', 1), (''nanoseconds'', 2)])
     [''ns'', ''time'', ''nanoseconds'']"
    by (auto simp: range_order_def)
qed code_simp+

text \<open>
  C3 as stated fails: the Function loop ranges over every stack of \<open>Stacks\<close>, referenced
  by an aggregate or not. One event that is not a CPU sample and one stack give an
  artifact with a Function record and the strings \<open>f\<close> and \<open>a.go\<close> in its table.
\<close>

theorem no_samples_counterexample:
  "filter (\<lambda>e. Type e = EvCPUSample)
     (Events \<lparr>Events = [\<lparr>Type = EvOther 0, G = 1, Ts = 5, StkID = 3\<rparr>],
      Stacks = [3 \<mapsto> [\<lparr>PC = 100, Fn = ''f'', File = ''a.go'', Line = 5\<rparr>]]\<rparr>) = [] \<and>
   range_order
     (Stacks \<lparr>Events = [\<lparr>Type = EvOther 0, G = 1, Ts = 5, StkID = 3\<rparr>],
      Stacks = [3 \<mapsto> [\<lparr>PC = 100, Fn = ''f'', File = ''a.go'', Line = 5\<rparr>]]\<rparr>) [3] \<and>
   range_order (map_of [(''time'', 0 :: int64), (''ns'', 1), (''f'', 2), (''a.go'', 3), (''nanoseconds'', 4)])
     [''time'', ''ns'', ''f'', ''a.go'', ''nanoseconds''] \<and>
   ToPprof_bytes
     \<lparr>Events = [\<lparr>Type = EvOther 0, G = 1, Ts = 5, StkID = 3\<rparr>],
      Stacks = [3 \<mapsto> [\<lparr>PC = 100, Fn = ''f'', File = ''a.go'', Line = 5\<rparr>]]\<rparr> 0 0
     \<lparr>info_order = [], funcs_order = [3], locs_order = [3],
      strtab_order = [''time'', ''ns'', ''f'', ''a.go'', ''nanoseconds'']\<rparr> =
   Inr [Embedded 1 [Int64 1 0, Int64 2 1], Embedded 3 [Uint64 1 1],
      Embedded 5 [Uint64 1 1, Int64 2 2, Int64 4 3],
      Embedded 4 [Uint64 1 100, Uint64 2 1, Uint64 3 100, Embedded 4 [Uint64 1 1, Int64 2 5]],
      Int64 9 0, Int64 10 0, Embedded 11 [Int64 1 0, Int64 2 1], Int64 12 1, Int64 15 4,
      Tagged 50 [], Tagged 50 ''time'', Tagged 50 ''ns'', Tagged 50 ''f'', Tagged 50 ''a.go'',
      Tagged 50 ''nanoseconds''] \<and>
   table_strings (written
     [Embedded 1 [Int64 1 0, Int64 2 1], Embedded 3 [Uint64 1 1],
      Embedded 5 [Uint64 1 1, Int64 2 2, Int64 4 3],
      Embedded 4 [Uint64 1 100, Uint64 2 1, Uint64 3 100, Embedded 4 [Uint64 1 1, Int64 2 5]],
      Int64 9 0, Int64 10 0, Embedded 11 [Int64 1 0, Int64 2 1], Int64 12 1, Int64 15 4,
      Tagged 50 [], Tagged 50 ''time'', Tagged 50 ''ns'', Tagged 50 ''f'', Tagged 50 ''a.go'',
      Tagged 50 ''nanoseconds'']) =
   [[], ''time'', ''ns'', ''f'', ''a.go'', ''nanoseconds'']"
proof (intro conjI)
  show "ToPprof_bytes
     \<lparr>Events = [\<lparr>Type = EvOther 0, G = 1, Ts = 5, StkID = 3\<rparr>],
      Stacks = [3 \<mapsto> [\<lparr>PC = 100, Fn = ''f'', File = ''a.go'', Line = 5\<rparr>]]\<rparr> 0 0
     \<lparr>info_order = [], funcs_order = [3], locs_order = [3],
      strtab_order = [''time'', ''ns'', ''f'', ''a.go'', ''nanoseconds'']\<rparr> =
   Inr [Embedded 1 [Int64 1 0, Int64 2 1], Embedded 3 [Uint64 1 1],
      Embedded 5 [Uint64 1 1, Int64 2 2, Int64 4 3],
      Embedded 4 [Uint64 1 100, Uint64 2 1, Uint64 3 100, Embedded 4 [Uint64 1 1, Int64 2 5]],
      Int64 9 0, Int64 10 0, Embedded 11 [Int64 1 0, Int64 2 1], Int64 12 1, Int64 15 4,
      Tagged 50 [], Tagged 50 ''time'', Tagged 50 ''ns'', Tagged 50 ''f'', Tagged 50 ''a.go'',
      Tagged 50 ''nanoseconds'']"
    by code_simp
qed (auto simp: range_order_def written_def)

lemma function_firsts_empty: "all_frames parsed = {} \<Longrightarrow> function_firsts parsed ord = []"
  using function_firsts_subset [of parsed ord] scanned_subset [of parsed "funcs_order ord"]
  by auto

text \<open>
  C3, amended. For every input without CPU-sample events the artifact has no Sample
  record, no LabelSet record and exactly one Mapping record. Its string table holds the
  forced empty string and then, once each, the literals \<open>time\<close>, \<open>ns\<close> and
  \<open>nanoseconds\<close> and the names and files of the frames that got a Function record;
  these frames come from every stack of \<open>Stacks\<close> (one for each concatenation of name and
  file met there), so the table holds the literals alone when \<open>Stacks\<close> has no frame.
\<close>

theorem no_samples_artifact:
  assumes "\<forall>e\<in>set (Events parsed). Type e \<noteq> EvCPUSample"
  shows "\<exists>b enc.
     ToPprof_bytes parsed start stop ord = Inr b \<and>
     encode_sections parsed start stop ord = Inr enc \<and>
     filter (\<lambda>r. field_number r = 2) (written b) = [] \<and>
     filter (\<lambda>r. field_number r = 16) (written b) = [] \<and>
     filter (\<lambda>r. field_number r = 3) (written b) = [Embedded 3 [Uint64 1 1]] \<and>
     fst ` set (strtab enc) =
       {''time'', ''ns'', ''nanoseconds''} \<union>
       Fn ` set (function_firsts parsed ord) \<union> File ` set (function_firsts parsed ord) \<and>
     (range_order (map_of (strtab enc)) (strtab_order ord) \<longrightarrow>
        table_strings (written b) = [] # strtab_order ord \<and> distinct (strtab_order ord) \<and>
        set (strtab_order ord) = fst ` set (strtab enc)) \<and>
     (range_order (Stacks parsed) (funcs_order ord) \<longrightarrow>
        set (function_firsts parsed ord) \<subseteq> all_frames parsed \<and>
        function_key ` set (function_firsts parsed ord) = function_key ` all_frames parsed) \<and>
     (all_frames parsed = {} \<longrightarrow>
        fst ` set (strtab enc) = {''time'', ''ns'', ''nanoseconds''})"
proof (rule artifact [of parsed start stop ord])
  fix lrecs enc
  assume enc: "encode_sections parsed start stop ord = Inr enc"
    and b: "ToPprof_bytes parsed start stop ord =
       Inr (sections parsed start stop ord lrecs (strtab enc) @
            string_table (strtab enc) (strtab_order ord))"
    and l: "map field_number lrecs = replicate (length (snd (registry (aggregate (Events parsed))))) 16"
    and "dense_strtab (strtab enc)"
    and "extends [(''time'', 0), (''ns'', 1)] (strtab enc)"
    and keys: "fst ` set (strtab enc) =
       {''time'', ''ns'', ''nanoseconds''} \<union>
       \<Union> (set ` Labels ` set (snd (registry (aggregate (Events parsed))))) \<union>
       Fn ` set (function_firsts parsed ord) \<union> File ` set (function_firsts parsed ord)"
  let ?b = "sections parsed start stop ord lrecs (strtab enc) @
            string_table (strtab enc) (strtab_order ord)"
  have agg: "aggregate (Events parsed) = init_agg"
    using assms by (rule aggregate_no_samples)
  then have lrecs: "lrecs = []"
    using l by (simp add: init_agg_def)
  have samples: "range_map (info (aggregate (Events parsed))) (info_order ord) = []"
    by (simp add: agg init_agg_def range_map_def List.map_filter_def)
  have f2: "filter (\<lambda>r. field_number r = 2) (written ?b) = []"
    unfolding filter_field_written filter_append filter_field_sections [OF l]
    by (simp add: filter_field_string_table written_def samples)
  have f16: "filter (\<lambda>r. field_number r = 16) (written ?b) = []"
    unfolding filter_field_written filter_append filter_field_sections [OF l]
    by (simp add: filter_field_string_table written_def lrecs)
  have f3: "filter (\<lambda>r. field_number r = 3) (written ?b) = [Embedded 3 [Uint64 1 1]]"
    unfolding filter_field_written filter_append filter_field_sections [OF l]
    by (simp add: filter_field_string_table written_def)
  have k: "fst ` set (strtab enc) =
       {''time'', ''ns'', ''nanoseconds''} \<union>
       Fn ` set (function_firsts parsed ord) \<union> File ` set (function_firsts parsed ord)"
    using keys by (simp add: agg init_agg_def)
  have t: "range_order (map_of (strtab enc)) (strtab_order ord) \<longrightarrow>
        table_strings (written ?b) = [] # strtab_order ord \<and> distinct (strtab_order ord) \<and>
        set (strtab_order ord) = fst ` set (strtab enc)"
    unfolding table_strings_written
    using string_table_last(1,3,4) [OF enc b] by blast
  have s: "range_order (Stacks parsed) (funcs_order ord) \<longrightarrow>
        set (function_firsts parsed ord) \<subseteq> all_frames parsed \<and>
        function_key ` set (function_firsts parsed ord) = function_key ` all_frames parsed"
    using function_firsts_subset [of parsed ord] function_firsts_keys [of parsed ord]
    by (auto simp: scanned_all)
  have e: "all_frames parsed = {} \<longrightarrow>
        fst ` set (strtab enc) = {''time'', ''ns'', ''nanoseconds''}"
    using k by (auto simp: function_firsts_empty)
  show ?thesis
    by (intro exI [of _ ?b] exI [of _ enc] conjI) (fact b enc f2 f16 f3 k t s e)+
qed

theorem no_samples_artifact_witness:
  "Type \<lparr>Type = EvOther 0, G = 1, Ts = 5, StkID = 3\<rparr> \<noteq> EvCPUSample \<and>
   range_order (map_of [(''time'', 0 :: int64), (''ns'', 1), (''f'', 2), (''a.go'', 3), (''nanoseconds'', 4)])
     [''time'', ''ns'', ''f'', ''a.go'', ''nanoseconds''] \<and>
   range_order
     (Stacks \<lparr>Events = [\<lparr>Type = EvOther 0, G = 1, Ts = 5, StkID = 3\<rparr>],
      Stacks = [3 \<mapsto> [\<lparr>PC = 100, Fn = ''f'', File = ''a.go'', Line = 5\<rparr>]]\<rparr>) [3] \<and>
   (\<exists>b. ToPprof_bytes
     \<lparr>Events = [\<lparr>Type = EvOther 0, G = 1, Ts = 5, StkID = 3\<rparr>],
      Stacks = [3 \<mapsto> [\<lparr>PC = 100, Fn = ''f'', File = ''a.go'', Line = 5\<rparr>]]\<rparr> 0 0
     \<lparr>info_order = [], funcs_order = [3], locs_order = [3],
      strtab_order = [''time'', ''ns'', ''f'', ''a.go'', ''nanoseconds'']\<rparr> = Inr b \<and>
     filter (\<lambda>r. field_number r = 2) (written b) = [] \<and>
     filter (\<lambda>r. field_number r = 16) (written b) = [] \<and>
     filter (\<lambda>r. field_number r = 3) (written b) = [Embedded 3 [Uint64 1 1]] \<and>
     table_strings (written b) = [[], ''time'', ''ns'', ''f'', ''a.go'', ''nanoseconds''])"
proof -
  let ?p = "\<lparr>Events = [\<lparr>Type = EvOther 0, G = 1, Ts = 5, StkID = 3\<rparr>],
      Stacks = [3 \<mapsto> [\<lparr>PC = 100, Fn = ''f'', File = ''a.go'', Line = 5\<rparr>]]\<rparr>"
  let ?o = "\<lparr>info_order = [], funcs_order = [3], locs_order = [3],
      strtab_order = [''time'', ''ns'', ''f'', ''a.go'', ''nanoseconds'']\<rparr>"
  let ?t = "[(''time'', 0), (''ns'', 1), (''f'', 2), (''a.go'', 3), (''nanoseconds'', 4)] :: StrTab"
  have h: "\<forall>e\<in>set (Events ?p). Type e \<noteq> EvCPUSample" by simp
  have r1: "range_order (map_of ?t) (strtab_order ?o)"
    by (auto simp: range_order_def)
  have r2: "range_order (Stacks ?p) (funcs_order ?o)"
    by (auto simp: range_order_def)
  have run: "encode_sections ?p 0 0 ?o = Inr \<lparr>buf = [Embedded 1 [Int64 1 0, Int64 2 1], Embedded 3 [Uint64 1 1],
      Embedded 5 [Uint64 1 1, Int64 2 2, Int64 4 3],
      Embedded 4 [Uint64 1 100, Uint64 2 1, Uint64 3 100, Embedded 4 [Uint64 1 1, Int64 2 5]],
      Int64 9 0, Int64 10 0, Embedded 11 [Int64 1 0, Int64 2 1], Int64 12 1, Int64 15 4], strtab = ?t\<rparr>"
    by code_simp
  from no_samples_artifact [OF h, of 0 0 ?o]
  obtain b enc where b: "ToPprof_bytes ?p 0 0 ?o = Inr b"
    and enc: "encode_sections ?p 0 0 ?o = Inr enc"
    and f: "filter (\<lambda>r. field_number r = 2) (written b) = []"
      "filter (\<lambda>r. field_number r = 16) (written b) = []"
      "filter (\<lambda>r. field_number r = 3) (written b) = [Embedded 3 [Uint64 1 1]]"
    and t: "range_order (map_of (strtab enc)) (strtab_order ?o) \<longrightarrow>
        table_strings (written b) = [] # strtab_order ?o \<and> distinct (strtab_order ?o) \<and>
        set (strtab_order ?o) = fst ` set (strtab enc)"
    by (elim exE conjE)
  have "enc = \<lparr>buf = [Embedded 1 [Int64 1 0, Int64 2 1], Embedded 3 [Uint64 1 1],
      Embedded 5 [Uint64 1 1, Int64 2 2, Int64 4 3],
      Embedded 4 [Uint64 1 100, Uint64 2 1, Uint64 3 100, Embedded 4 [Uint64 1 1, Int64 2 5]],
      Int64 9 0, Int64 10 0, Embedded 11 [Int64 1 0, Int64 2 1], Int64 12 1, Int64 15 4], strtab = ?t\<rparr>"
    using enc unfolding run by simp
  then have "strtab enc = ?t" by simp
  with t r1 have "table_strings (written b) = [] # strtab_order ?o" by simp
  with b f r1 r2 show ?thesis by simp
qed

end
